theory Spec2Isabelle
  imports Main "HOL-Library.Char_ord" "HOL-Library.List_Lexorder"
begin

section \<open>Strings\<close>

text \<open>
  Python strings are modelled as \<^typ>\<open>string\<close>. The text handled by the program is taken
  to be ASCII: \<open>is_space\<close> lists the ASCII characters for which Python's \<open>str.isspace\<close>
  holds, and \<open>lower\<close> and \<open>upper\<close> change the letters A-Z and a-z only. Strings are
  compared as Python compares them, character by character on the character codes.
\<close>

definition is_space :: "char \<Rightarrow> bool" where
  "is_space c = (c \<in> set [CHR 0x09, CHR 0x0A, CHR 0x0B, CHR 0x0C, CHR 0x0D,
                            CHR 0x1C, CHR 0x1D, CHR 0x1E, CHR 0x1F, CHR '' ''])"

definition lstrip :: "string \<Rightarrow> string" where
  "lstrip s = dropWhile is_space s"

definition rstrip :: "string \<Rightarrow> string" where
  "rstrip s = rev (dropWhile is_space (rev s))"

text \<open>\<open>s.strip()\<close>\<close>

definition strip :: "string \<Rightarrow> string" where
  "strip s = rstrip (lstrip s)"

text \<open>\<open>s.startswith(p)\<close> and \<open>s.endswith(p)\<close>\<close>

definition startswith :: "string \<Rightarrow> string \<Rightarrow> bool" where
  "startswith s p = (take (length p) s = p)"

definition endswith :: "string \<Rightarrow> string \<Rightarrow> bool" where
  "endswith s p = (length p \<le> length s \<and> drop (length s - length p) s = p)"

text \<open>\<open>s[1:-1]\<close>\<close>

definition slice_1_m1 :: "string \<Rightarrow> string" where
  "slice_1_m1 s = butlast (tl s)"

text \<open>
  \<open>s.split('=', 1)\<close> on a string that contains \<open>=\<close>: the part before the first \<open>=\<close>
  and the part after it.
\<close>

definition split_eq :: "string \<Rightarrow> string \<times> string" where
  "split_eq s = (takeWhile (\<lambda>c. c \<noteq> CHR ''='') s, tl (dropWhile (\<lambda>c. c \<noteq> CHR ''='') s))"

definition lower_char :: "char \<Rightarrow> char" where
  "lower_char c = (case List.find (\<lambda>p. fst p = c)
       (zip ''ABCDEFGHIJKLMNOPQRSTUVWXYZ'' ''abcdefghijklmnopqrstuvwxyz'') of
     Some p \<Rightarrow> snd p | None \<Rightarrow> c)"

definition upper_char :: "char \<Rightarrow> char" where
  "upper_char c = (case List.find (\<lambda>p. fst p = c)
       (zip ''abcdefghijklmnopqrstuvwxyz'' ''ABCDEFGHIJKLMNOPQRSTUVWXYZ'') of
     Some p \<Rightarrow> snd p | None \<Rightarrow> c)"

text \<open>\<open>s.lower()\<close> and \<open>s.upper()\<close>\<close>

definition lower :: "string \<Rightarrow> string" where
  "lower s = map lower_char s"

definition upper :: "string \<Rightarrow> string" where
  "upper s = map upper_char s"

text \<open>\<open>str(n)\<close> for a non-negative integer: its decimal digits.\<close>

definition digit_char :: "nat \<Rightarrow> char" where
  "digit_char d = ''0123456789'' ! d"

fun str_nat :: "nat \<Rightarrow> string" where
  "str_nat n = (if n < 10 then [digit_char n] else str_nat (n div 10) @ [digit_char (n mod 10)])"

declare str_nat.simps [simp del]

section \<open>Dictionaries\<close>

text \<open>
  A Python \<open>dict\<close> keeps its keys in insertion order, and assigning to a key that is
  present keeps the key's position. It is modelled as an association list in that order.
\<close>

type_synonym ('k, 'v) dict = "('k \<times> 'v) list"

text \<open>\<open>d.keys()\<close>, \<open>k in d\<close>, \<open>d.get(k)\<close> and \<open>d[k] = v\<close>\<close>

definition keys :: "('k, 'v) dict \<Rightarrow> 'k list" where
  "keys d = map fst d"

definition dict_has :: "'k \<Rightarrow> ('k, 'v) dict \<Rightarrow> bool" where
  "dict_has k d = (k \<in> set (keys d))"

definition dict_get :: "('k, 'v) dict \<Rightarrow> 'k \<Rightarrow> 'v option" where
  "dict_get d k = map_of d k"

fun dict_set :: "'k \<Rightarrow> 'v \<Rightarrow> ('k, 'v) dict \<Rightarrow> ('k, 'v) dict" where
  "dict_set k v [] = [(k, v)]"
| "dict_set k v (p # d) = (if fst p = k then (k, v) # d else p # dict_set k v d)"

type_synonym config_section = "(string, string) dict"
type_synonym config_store = "(string, config_section) dict"

section \<open>Reading a configuration file: \<open>read_ini_file\<close>\<close>

text \<open>
  The candidate name that the renaming loop of \<open>read_ini_file\<close> tries in the round
  in which \<open>counter\<close> has the value \<open>k\<close>: \<open>f"{original_name}__{counter}"\<close>.
\<close>

definition renamed :: "string \<Rightarrow> nat \<Rightarrow> string" where
  "renamed original_name k = original_name @ ''__'' @ str_nat k"

lemma digit_char_inj:
  assumes "a < 10" "b < 10" "digit_char a = digit_char b"
  shows "a = b"
proof -
  have d: "distinct ''0123456789''" by simp
  have "a < length ''0123456789''" "b < length ''0123456789''"
    using assms by simp_all
  with d assms(3) show ?thesis
    unfolding digit_char_def by (simp only: nth_eq_iff_index_eq)
qed

lemma str_nat_not_Nil: "str_nat n \<noteq> []" "[] \<noteq> str_nat n"
  by (subst str_nat.simps, simp)+

lemma str_nat_inj: "str_nat n = str_nat m \<Longrightarrow> n = m"
proof (induction n arbitrary: m rule: str_nat.induct)
  case (1 n)
  show ?case
  proof (cases "n < 10")
    case n: True
    show ?thesis
    proof (cases "m < 10")
      case True
      with n "1.prems" show ?thesis
        by (simp add: str_nat.simps [of n] str_nat.simps [of m] digit_char_inj)
    next
      case False
      with n "1.prems" show ?thesis
        by (simp add: str_nat.simps [of n] str_nat.simps [of m] str_nat_not_Nil)
    qed
  next
    case n: False
    show ?thesis
    proof (cases "m < 10")
      case True
      with n "1.prems" show ?thesis
        by (simp add: str_nat.simps [of n] str_nat.simps [of m] str_nat_not_Nil)
    next
      case False
      with n "1.prems" have e: "str_nat (n div 10) = str_nat (m div 10)"
        and d: "digit_char (n mod 10) = digit_char (m mod 10)"
        by (simp_all add: str_nat.simps [of n] str_nat.simps [of m])
      from "1.IH" [OF n e] have "n div 10 = m div 10" .
      moreover from d have "n mod 10 = m mod 10"
        by (rule digit_char_inj [rotated 2]) simp_all
      ultimately show ?thesis
        by (metis div_mult_mod_eq)
    qed
  qed
qed

lemma renamed_inj: "renamed a j = renamed a k \<Longrightarrow> j = k"
  by (simp add: renamed_def str_nat_inj)

lemma finite_renamed_in: "finite {k. c \<le> k \<and> renamed a k \<in> S}" if "finite S"
proof -
  have "inj (renamed a)"
    by (rule injI) (rule renamed_inj)
  then have "finite (renamed a -` S)"
    using that by (rule finite_vimageI [rotated])
  then show ?thesis
    by (rule rev_finite_subset) auto
qed

text \<open>
  The renaming loop:
  \<^verbatim>\<open>
  counter = 1
  while section_name in dsn_dict:
      section_name = f"{original_name}__{counter}"
      counter += 1
  \<close>
  It ends because the dictionary is finite and the candidate names are pairwise different.
\<close>

function unique_name :: "string \<Rightarrow> string \<Rightarrow> nat \<Rightarrow> (string, 'v) dict \<Rightarrow> string" where
  "unique_name original_name section_name counter dsn_dict =
     (if dict_has section_name dsn_dict
      then unique_name original_name (renamed original_name counter) (counter + 1) dsn_dict
      else section_name)"
  by pat_completeness auto
termination
proof (relation "measure (\<lambda>(a, s, c, d).
    card {k. c \<le> k \<and> renamed a k \<in> set (keys d)} + (if dict_has s d then 1 else 0))", goal_cases)
  case 1
  show ?case by simp
next
  case (2 a s c d)
  let ?A = "\<lambda>c. {k. c \<le> k \<and> renamed a k \<in> set (keys d)}"
  have fin: "finite (?A c)" for c
    by (rule finite_renamed_in) simp
  show ?case
  proof (cases "dict_has (renamed a c) d")
    case True
    then have "?A c = insert c (?A (c + 1))"
      by (auto simp: dict_has_def Suc_le_eq le_less)
    then have "card (?A c) = Suc (card (?A (c + 1)))"
      using fin [of "c + 1"] by simp
    with 2 True show ?thesis by simp
  next
    case False
    then have "?A c = ?A (c + 1)"
      by (auto simp: dict_has_def Suc_le_eq le_less)
    with 2 False show ?thesis by simp
  qed
qed

declare unique_name.simps [simp del]


text \<open>
  The state of the parsing loop: the dictionary built so far, the section that is open, and
  the lines printed so far.
\<close>

record parse_state =
  dsn_dict :: config_store
  current_section :: "string option"
  printed :: "string list"

datatype py_exception = KeyError string | OSError string | UnboundLocalError string

definition quoted :: "string \<Rightarrow> string" where
  "quoted s = [CHR 0x27] @ s @ [CHR 0x27]"

definition duplicate_warning :: "string \<Rightarrow> string \<Rightarrow> string" where
  "duplicate_warning original_name section_name =
     ''Warning: Duplicate section '' @ quoted original_name @ '' renamed to '' @ quoted section_name"

text \<open>
  The body of the loop over the lines of the file. \<open>dsn_dict[current_section][key] = value\<close>
  raises \<open>KeyError\<close> when the open section is not in the dictionary; the model keeps that
  branch.
\<close>

definition process_line :: "string \<Rightarrow> parse_state \<Rightarrow> py_exception + parse_state" where
  "process_line raw st =
    (let line = strip raw in
     if line = [] \<or> startswith line ''#'' \<or> startswith line '';'' then Inr st
     else if startswith line ''['' \<and> endswith line '']'' then
       (let section_name = strip (slice_1_m1 line) in
        if section_name \<in> set [''ODBC'', ''ODBC Data Sources'']
        then Inr (st\<lparr>current_section := None\<rparr>)
        else
          (let original_name = section_name;
               section_name' = unique_name original_name section_name 1 (dsn_dict st);
               out = (if section_name' \<noteq> original_name
                      then [duplicate_warning original_name section_name'] else [])
           in Inr (st\<lparr>dsn_dict := dict_set section_name' [] (dsn_dict st),
                     current_section := Some section_name',
                     printed := printed st @ out\<rparr>)))
     else if CHR ''='' \<in> set line then
       (case current_section st of
          None \<Rightarrow> Inr st
        | Some cur \<Rightarrow>
            (let key = strip (fst (split_eq line)); value = strip (snd (split_eq line)) in
             case dict_get (dsn_dict st) cur of
               None \<Rightarrow> Inl (KeyError cur)
             | Some sec \<Rightarrow>
                 Inr (st\<lparr>dsn_dict := dict_set cur (dict_set key value sec) (dsn_dict st)\<rparr>)))
     else Inr st)"

text \<open>The loop: it stops at the first exception, with the state reached so far.\<close>

fun process_lines :: "string list \<Rightarrow> parse_state \<Rightarrow> py_exception option \<times> parse_state" where
  "process_lines [] st = (None, st)"
| "process_lines (l # ls) st =
     (case process_line l st of
        Inl e \<Rightarrow> (Some e, st)
      | Inr st' \<Rightarrow> process_lines ls st')"

definition initial_state :: parse_state where
  "initial_state = \<lparr>dsn_dict = [], current_section = None, printed = []\<rparr>"

text \<open>
  A file opened with \<open>open(filepath, 'r')\<close> is read with universal newlines: \<open>\r\n\<close> and
  \<open>\r\<close> arrive as \<open>\n\<close>. Iterating over the file gives its lines, each with its final
  \<open>\n\<close> when the file has one there.
\<close>

fun universal_newlines :: "string \<Rightarrow> string" where
  "universal_newlines [] = []"
| "universal_newlines [c] = [if c = CHR 0x0D then CHR 0x0A else c]"
| "universal_newlines (c # d # cs) =
     (if c = CHR 0x0D \<and> d = CHR 0x0A then CHR 0x0A # universal_newlines cs
      else if c = CHR 0x0D then CHR 0x0A # universal_newlines (d # cs)
      else c # universal_newlines (d # cs))"

fun file_lines_from :: "string \<Rightarrow> string \<Rightarrow> string list" where
  "file_lines_from cur [] = (if cur = [] then [] else [cur])"
| "file_lines_from cur (c # cs) =
     (if c = CHR 0x0A then (cur @ [c]) # file_lines_from [] cs
      else file_lines_from (cur @ [c]) cs)"

definition file_lines :: "string \<Rightarrow> string list" where
  "file_lines text = file_lines_from [] (universal_newlines text)"

text \<open>
  What a path holds: nothing; a path that cannot be examined (\<open>stat\<close> fails with an
  \<open>OSError\<close> other than the four that mean that nothing is there, such as a name that is
  too long or a directory that may not be searched; the message is given); a file that
  cannot be opened for reading (\<open>open\<close> raises \<open>OSError\<close> with the given message); or a
  readable file with its text.
\<close>

datatype file_state = Absent | Unreachable string | Unreadable string | Content string

type_synonym filesystem = "string \<Rightarrow> file_state"

text \<open>
  \<open>Path(p).exists()\<close>: \<open>pathlib\<close> calls \<open>stat\<close> and gives \<open>False\<close> for the errors
  \<open>ENOENT\<close>, \<open>ENOTDIR\<close>, \<open>EBADF\<close> and \<open>ELOOP\<close>; every other \<open>OSError\<close> is raised
  again and leaves the call.
\<close>

definition path_exists :: "filesystem \<Rightarrow> string \<Rightarrow> py_exception + bool" where
  "path_exists fs p =
     (case fs p of
        Absent \<Rightarrow> Inr False
      | Unreachable msg \<Rightarrow> Inl (OSError msg)
      | Unreadable msg \<Rightarrow> Inr True
      | Content body \<Rightarrow> Inr True)"

text \<open>Python's truth value of a string that may be \<open>None\<close>.\<close>

definition truthy :: "string option \<Rightarrow> bool" where
  "truthy s = (case s of None \<Rightarrow> False | Some v \<Rightarrow> v \<noteq> [])"

definition exception_str :: "py_exception \<Rightarrow> string" where
  "exception_str e =
     (case e of
        KeyError k \<Rightarrow> quoted k
      | OSError msg \<Rightarrow> msg
      | UnboundLocalError v \<Rightarrow>
          ''cannot access local variable '' @ quoted v @ '' where it is not associated with a value'')"

definition read_warning :: "string \<Rightarrow> py_exception \<Rightarrow> string" where
  "read_warning filepath e = ''Warning: Error reading '' @ filepath @ '': '' @ exception_str e"

text \<open>
  The \<open>try\<close> block of \<open>read_ini_file\<close>: opening the file and the loop over its lines. It
  gives the exception raised in the block, if any, and the state reached.
\<close>

definition read_ini_file_try :: "filesystem \<Rightarrow> string \<Rightarrow> py_exception option \<times> parse_state" where
  "read_ini_file_try fs filepath =
     (case fs filepath of
        Content text \<Rightarrow> process_lines (file_lines text) initial_state
      | Unreadable msg \<Rightarrow> (Some (OSError msg), initial_state)
      | Unreachable msg \<Rightarrow> (Some (OSError msg), initial_state)
      | Absent \<Rightarrow> (Some (OSError ''No such file or directory''), initial_state))"

text \<open>
  \<open>read_ini_file\<close> from the \<open>try\<close> on, for a path that the test before it has let
  through: the returned dictionary and the lines printed. The handler \<open>except Exception\<close>
  prints a warning and the function returns the dictionary built so far.
\<close>

definition read_ini_file_found :: "filesystem \<Rightarrow> string \<Rightarrow> config_store \<times> string list" where
  "read_ini_file_found fs p =
     (case read_ini_file_try fs p of
        (None, st) \<Rightarrow> (dsn_dict st, printed st)
      | (Some e, st) \<Rightarrow> (dsn_dict st, printed st @ [read_warning p e]))"

text \<open>
  \<open>read_ini_file\<close>: the exception that leaves it, or the returned dictionary and the lines
  printed. The test \<open>if not filepath or not Path(filepath).exists(): return {}\<close> stands
  before the \<open>try\<close>, so an exception of \<open>exists()\<close> is not caught.
\<close>

definition read_ini_file ::
  "filesystem \<Rightarrow> string option \<Rightarrow> py_exception + config_store \<times> string list" where
  "read_ini_file fs filepath =
     (case filepath of
        None \<Rightarrow> Inr ([], [])
      | Some p \<Rightarrow>
          if p = [] then Inr ([], [])
          else (case path_exists fs p of
                  Inl e \<Rightarrow> Inl e
                | Inr found \<Rightarrow> if found then Inr (read_ini_file_found fs p) else Inr ([], [])))"


section \<open>The manager object and what surrounds it\<close>

text \<open>The fields of \<open>ODBCManager\<close>.\<close>

record odbc_manager =
  has_unixodbc :: bool
  has_iodbc :: bool
  odbcini :: "string option"
  odbcinst :: "string option"

datatype manager = Unixodbc | Iodbc

text \<open>
  A printed line. Lines of ASCII text are kept as they are; \<open>Rule\<close> is the line of 63
  box-drawing characters, and \<open>Check\<close> and \<open>Cross\<close> are the lines that begin with the check
  mark and with the cross, followed by the given text.
\<close>

datatype message = Text string | Rule | Check string | Cross string

text \<open>
  What \<open>pyodbc.connect(conn_str)\<close> followed by the test query gives: the first column of
  the row fetched (\<open>None\<close> when no row came back), a \<open>pyodbc.Error\<close>, or another exception.
\<close>

datatype connect_outcome = Query_result "string option" | Pyodbc_error string | Other_error string

text \<open>
  The world the program runs in: the files, the process environment, the home directory,
  the lines printed so far, the calls of \<open>pyodbc.connect\<close> made so far (the tester that
  made the call and the connection string it handed over), and \<open>pyodbc\<close> itself, absent
  when the library is not installed. The outcome of a connection may depend on how many
  calls came before it.
\<close>

record world =
  files :: filesystem
  environ :: "string \<Rightarrow> string option"
  home :: string
  stdout :: "message list"
  connections :: "(manager \<times> string) list"
  pyodbc :: "(nat \<Rightarrow> string \<Rightarrow> connect_outcome) option"

definition say :: "message list \<Rightarrow> world \<Rightarrow> world" where
  "say ms w = w\<lparr>stdout := stdout w @ ms\<rparr>"

definition setenv :: "string \<Rightarrow> string \<Rightarrow> world \<Rightarrow> world" where
  "setenv name v w = w\<lparr>environ := (environ w)(name := Some v)\<rparr>"

text \<open>
  \<open>p and Path(p).exists()\<close> for a path that may be \<open>None\<close>: its truth value, or the
  exception of \<open>exists()\<close>.
\<close>

definition file_present :: "filesystem \<Rightarrow> string option \<Rightarrow> py_exception + bool" where
  "file_present fs p =
     (case p of None \<Rightarrow> Inr False | Some q \<Rightarrow> if q = [] then Inr False else path_exists fs q)"

text \<open>\<open>f"{p}"\<close> for a path that may be \<open>None\<close>\<close>

definition str_opt :: "string option \<Rightarrow> string" where
  "str_opt p = (case p of None \<Rightarrow> ''None'' | Some q \<Rightarrow> q)"

text \<open>
  A call of \<open>read_ini_file\<close> from a method: the warnings go to the output. A method gives
  the exception that leaves it, or its return value, and the world as it leaves it.
\<close>

definition read_ini :: "string option \<Rightarrow> world \<Rightarrow> (py_exception + config_store) \<times> world" where
  "read_ini filepath w =
     (case read_ini_file (files w) filepath of
        Inl e \<Rightarrow> (Inl e, w)
      | Inr (dsn_dict', warnings) \<Rightarrow> (Inr dsn_dict', say (map Text warnings) w))"

section \<open>Listing the data sources: \<open>list_dsns_grouped\<close>\<close>

text \<open>
  The lookup of the driver of one data source:
  \<^verbatim>\<open>
  driver = 'unknown'
  for key, value in dsn_config.items():
      if key.lower() == 'driver':
          driver = value.strip()
          break
  \<close>
\<close>

fun find_driver :: "string \<Rightarrow> config_section \<Rightarrow> string" where
  "find_driver driver [] = driver"
| "find_driver driver (item # rest) =
     (if lower (fst item) = ''driver'' then strip (snd item) else find_driver driver rest)"

text \<open>\<open>d[k].append(x)\<close> on a \<open>defaultdict(list)\<close>\<close>

definition dict_append :: "'k \<Rightarrow> 'a \<Rightarrow> ('k, 'a list) dict \<Rightarrow> ('k, 'a list) dict" where
  "dict_append k x d =
     (case dict_get d k of None \<Rightarrow> dict_set k [x] d | Some xs \<Rightarrow> dict_set k (xs @ [x]) d)"

text \<open>The loop that fills \<open>driver_dsns\<close>.\<close>

fun group_by_driver :: "config_store \<Rightarrow> (string, string list) dict \<Rightarrow> (string, string list) dict" where
  "group_by_driver [] driver_dsns = driver_dsns"
| "group_by_driver (item # rest) driver_dsns =
     group_by_driver rest (dict_append (find_driver ''unknown'' (snd item)) (fst item) driver_dsns)"

text \<open>\<open>for driver in sorted(driver_dsns.keys()): driver_dsns[driver].sort()\<close>\<close>

fun sort_groups :: "string list \<Rightarrow> (string, string list) dict \<Rightarrow> (string, string list) dict" where
  "sort_groups [] driver_dsns = driver_dsns"
| "sort_groups (driver # rest) driver_dsns =
     sort_groups rest
       (case dict_get driver_dsns driver of
          None \<Rightarrow> dict_set driver [] driver_dsns
        | Some dsns \<Rightarrow> dict_set driver (sort dsns) driver_dsns)"

text \<open>\<open>for driver in sorted(driver_dsns.keys()): numbered_dsns.extend(driver_dsns[driver])\<close>\<close>

fun extend_all :: "string list \<Rightarrow> (string, string list) dict \<Rightarrow> string list \<Rightarrow> string list" where
  "extend_all [] driver_dsns numbered_dsns = numbered_dsns"
| "extend_all (driver # rest) driver_dsns numbered_dsns =
     extend_all rest driver_dsns
       (numbered_dsns @ (case dict_get driver_dsns driver of None \<Rightarrow> [] | Some dsns \<Rightarrow> dsns))"

text \<open>The list built from a dictionary of data sources that is not empty.\<close>

definition grouped_names :: "config_store \<Rightarrow> string list" where
  "grouped_names dsn_dict' =
     (let driver_dsns = group_by_driver dsn_dict' [];
          driver_dsns = sort_groups (sort (keys driver_dsns)) driver_dsns
      in extend_all (sort (keys driver_dsns)) driver_dsns [])"

text \<open>
  \<open>list_dsns_grouped(show_details=False)\<close>, as the menu calls it: the list returned. With
  \<open>show_details=True\<close> the same list is built while it is printed.
\<close>

definition list_dsns_grouped ::
  "odbc_manager \<Rightarrow> world \<Rightarrow> (py_exception + string list) \<times> world" where
  "list_dsns_grouped self w =
     (case file_present (files w) (odbcini self) of
        Inl e \<Rightarrow> (Inl e, w)
      | Inr found \<Rightarrow>
          if \<not> found then (Inr [], w)
          else (case read_ini (odbcini self) w of
                  (Inl e, w) \<Rightarrow> (Inl e, w)
                | (Inr dsn_dict', w) \<Rightarrow>
                    if dsn_dict' = [] then (Inr [], w) else (Inr (grouped_names dsn_dict'), w)))"

section \<open>Showing a data source: \<open>show_dsn_details\<close>\<close>

text \<open>The line printed for one key of the section.\<close>

definition detail_line :: "string \<times> string \<Rightarrow> message" where
  "detail_line item =
     (if upper (fst item) \<in> set [''PWD'', ''PASSWORD'']
      then Text (fst item @ '' = ********'')
      else Text (fst item @ '' = '' @ snd item))"

definition show_dsn_details ::
  "odbc_manager \<Rightarrow> string \<Rightarrow> world \<Rightarrow> (py_exception + config_section option) \<times> world" where
  "show_dsn_details self dsn_name w =
     (let w = say [Text [], Text (''DSN: '' @ dsn_name), Rule] w in
      case file_present (files w) (odbcini self) of
        Inl e \<Rightarrow> (Inl e, w)
      | Inr found \<Rightarrow>
          if \<not> found
          then (Inr None, say [Text (''Error: '' @ str_opt (odbcini self) @ '' doesn'' @ [CHR 0x27] @ ''t exist'')] w)
          else (case read_ini (odbcini self) w of
                  (Inl e, w) \<Rightarrow> (Inl e, w)
                | (Inr dsn_dict', w) \<Rightarrow>
                    (case dict_get dsn_dict' dsn_name of
                       None \<Rightarrow> (Inr None, say [Text ''DSN not found''] w)
                     | Some dsn_config \<Rightarrow>
                         (Inr (Some dsn_config), say (map detail_line dsn_config @ [Rule, Text []]) w))))"


section \<open>Testing a connection: \<open>test_dsn_unixodbc\<close>, \<open>test_dsn_iodbc\<close>, \<open>test_dsn\<close>\<close>

definition manager_name :: "manager \<Rightarrow> string" where
  "manager_name m = (case m of Unixodbc \<Rightarrow> ''unixODBC'' | Iodbc \<Rightarrow> ''iODBC'')"

text \<open>The connection string and the one that is displayed, with the password starred.\<close>

definition conn_str :: "string \<Rightarrow> string option \<Rightarrow> string option \<Rightarrow> string" where
  "conn_str dsn_name username password =
     (if truthy username \<and> truthy password
      then ''DSN='' @ dsn_name @ '';UID='' @ str_opt username @ '';PWD='' @ str_opt password
      else ''DSN='' @ dsn_name)"

definition display_conn_str :: "string \<Rightarrow> string option \<Rightarrow> string option \<Rightarrow> string" where
  "display_conn_str dsn_name username password =
     (if truthy username \<and> truthy password
      then ''DSN='' @ dsn_name @ '';UID='' @ str_opt username @ '';PWD=''
             @ replicate (length (str_opt password)) (CHR ''*'')
      else ''DSN='' @ dsn_name)"

definition common_locations :: "world \<Rightarrow> string list" where
  "common_locations w =
     [''/Library/ODBC/odbcinst.ini'', ''/usr/local/etc/odbcinst.ini'', home w @ ''/.odbcinst.ini'']"

text \<open>
  The loop over the common locations:
  \<^verbatim>\<open>
  for location in common_locations:
      if Path(location).exists():
          odbcinst_path = location
          break
  \<close>
  It gives the first location that exists, if there is one, or the exception of
  \<open>exists()\<close>.
\<close>

fun first_existing :: "filesystem \<Rightarrow> string list \<Rightarrow> py_exception + string option" where
  "first_existing fs [] = Inr None"
| "first_existing fs (location # rest) =
     (case path_exists fs location of
        Inl e \<Rightarrow> Inl e
      | Inr found \<Rightarrow> if found then Inr (Some location) else first_existing fs rest)"

text \<open>The driver file the tester settles on: \<open>odbcinst_path\<close>.\<close>

definition find_odbcinst_path :: "odbc_manager \<Rightarrow> world \<Rightarrow> py_exception + string option" where
  "find_odbcinst_path self w =
     (if truthy (odbcinst self) then Inr (odbcinst self)
      else if truthy (environ w ''ODBCINST'') then Inr (environ w ''ODBCINST'')
      else (case first_existing (files w) (common_locations w) of
              Inl e \<Rightarrow> Inl e
            | Inr (Some location) \<Rightarrow> Inr (Some location)
            | Inr None \<Rightarrow> Inr (environ w ''ODBCINST'')))"

text \<open>\<open>dsn_config[dsn_name].get('Driver', '')\<close>\<close>

definition driver_setting_of :: "config_section \<Rightarrow> string" where
  "driver_setting_of dsn_section = (case dict_get dsn_section ''Driver'' of None \<Rightarrow> [] | Some v \<Rightarrow> v)"

text \<open>\<open>'/' in driver_setting or '\\' in driver_setting\<close>\<close>

definition looks_like_path :: "string \<Rightarrow> bool" where
  "looks_like_path driver_setting = (CHR ''/'' \<in> set driver_setting \<or> CHR 0x5C \<in> set driver_setting)"

text \<open>
  The search of the driver file for the driver whose library is the path found:
  \<^verbatim>\<open>
  for driver_name, driver_config in odbcinst_config.items():
      if driver_config.get('Driver') == driver_setting:
          correct_driver_name = driver_name
          break
  \<close>
\<close>

fun find_driver_name :: "config_store \<Rightarrow> string \<Rightarrow> string option" where
  "find_driver_name [] driver_setting = None"
| "find_driver_name (item # rest) driver_setting =
     (if dict_get (snd item) ''Driver'' = Some driver_setting then Some (fst item)
      else find_driver_name rest driver_setting)"

text \<open>
  The use of the driver file that was found for the data source whose \<open>Driver\<close> value is a
  path: the driver file is read and searched, and the two connection strings are assigned
  again when a driver is found.
\<close>

definition correct_driver ::
  "string \<Rightarrow> string option \<Rightarrow> string option \<Rightarrow> string option \<Rightarrow> string
     \<Rightarrow> string \<times> string \<Rightarrow> world \<Rightarrow> (py_exception + string \<times> string) \<times> world" where
  "correct_driver dsn_name username password odbcinst_path driver_setting strs w =
     (case read_ini odbcinst_path w of
        (Inl e, w) \<Rightarrow> (Inl e, w)
      | (Inr odbcinst_config, w) \<Rightarrow>
          (case find_driver_name odbcinst_config driver_setting of
             None \<Rightarrow>
               (Inr strs, say [Text ''Error: Could not find matching driver in odbcinst.ini''] w)
           | Some correct_driver_name \<Rightarrow>
               if correct_driver_name = []
               then (Inr strs, say [Text ''Error: Could not find matching driver in odbcinst.ini''] w)
               else
                 (let w = say [Text (''Info: Found matching driver: '' @ correct_driver_name)] w;
                      strs' = (conn_str dsn_name username password,
                               display_conn_str dsn_name username password)
                  in (Inr strs', say [Text (''Debug: Using corrected connection string: ''
                                         @ snd strs')] w))))"

text \<open>
  The check of the \<open>Driver\<close> value of the data source. It takes the two connection strings
  and gives them back, assigned again where the source assigns them again, or it gives the
  exception raised on the way by \<open>read_ini_file\<close> or by \<open>exists()\<close>.
\<close>

definition check_driver_setting ::
  "odbc_manager \<Rightarrow> string \<Rightarrow> string option \<Rightarrow> string option \<Rightarrow> string option
     \<Rightarrow> string \<times> string \<Rightarrow> world \<Rightarrow> (py_exception + string \<times> string) \<times> world" where
  "check_driver_setting self dsn_name username password odbcinst_path strs w =
     (case read_ini (odbcini self) w of
        (Inl e, w) \<Rightarrow> (Inl e, w)
      | (Inr dsn_config, w) \<Rightarrow>
          (case dict_get dsn_config dsn_name of
             None \<Rightarrow> (Inr strs, w)
           | Some dsn_section \<Rightarrow>
               (let driver_setting = driver_setting_of dsn_section in
                if looks_like_path driver_setting then
                  (let w = say [Text (''Warning: DSN '' @ quoted dsn_name
                                  @ '' uses driver path instead of name: '' @ driver_setting)] w
                   in case file_present (files w) odbcinst_path of
                        Inl e \<Rightarrow> (Inl e, w)
                      | Inr found \<Rightarrow>
                          if found
                          then correct_driver dsn_name username password odbcinst_path
                                 driver_setting strs w
                          else (Inr strs, w))
                else (Inr strs, w))))"

definition tips :: "message list" where
  "tips = [Text [], Text ''Troubleshooting tips for OpenLink drivers:'',
           Text ''  1. Check WideAsUTF16=Yes in DSN configuration'',
           Text ''  2. Verify driver is registered in odbcinst.ini'',
           Text ''  3. Check ODBCINI and ODBCINST environment variables'',
           Text ''  4. Ensure database server is running and accessible'']"

text \<open>The connection attempt and the report of its outcome.\<close>

definition attempt ::
  "manager \<Rightarrow> string \<times> string \<Rightarrow> (nat \<Rightarrow> string \<Rightarrow> connect_outcome) \<Rightarrow> world \<Rightarrow> bool \<times> world" where
  "attempt m strs connect w =
     (let w = say [Text (''Debug: Attempting connection with: pyodbc.connect('' @ quoted (fst strs) @ '')'')] w;
          outcome = connect (length (connections w)) (fst strs);
          w = w\<lparr>connections := connections w @ [(m, fst strs)]\<rparr>
      in case outcome of
           Query_result r \<Rightarrow>
             if r = Some ''Connection OK''
             then (True, say [Check (manager_name m @ '' connection successful'')] w)
             else (False, say (Cross (manager_name m @ '' connection failed - unexpected result'')
                      # (case m of Unixodbc \<Rightarrow> []
                         | Iodbc \<Rightarrow> [Text (''Connection string used: '' @ snd strs)])) w)
         | Pyodbc_error e \<Rightarrow>
             (False, say ((case m of
                             Unixodbc \<Rightarrow> [Cross (''unixODBC connection failed: '' @ e)]
                           | Iodbc \<Rightarrow> [Cross ''iODBC connection failed'',
                                        Text (''Connection string used: '' @ snd strs)]) @ tips) w)
         | Other_error e \<Rightarrow>
             (False, say [Cross (manager_name m @ '' connection failed: '' @ e)] w))"

text \<open>
  The environment variables the tester sets before it connects, and the driver file it
  settles on.
\<close>

definition set_environment ::
  "manager \<Rightarrow> odbc_manager \<Rightarrow> string \<Rightarrow> world \<Rightarrow> (py_exception + string option) \<times> world" where
  "set_environment m self display w =
     (let w = say [Text (''Debug: '' @ manager_name m @ '' connection string: '' @ display)] w;
          w = (if truthy (odbcini self) then setenv ''ODBCINI'' (str_opt (odbcini self)) w else w)
      in case find_odbcinst_path self w of
           Inl e \<Rightarrow> (Inl e, w)
         | Inr odbcinst_path \<Rightarrow>
             (Inr odbcinst_path,
              if truthy odbcinst_path
              then say [Text (''Debug: Set ODBCINST to '' @ str_opt odbcinst_path)]
                     (setenv ''ODBCINSTINI'' (str_opt odbcinst_path)
                       (setenv ''ODBCINST'' (str_opt odbcinst_path) w))
              else say [Text ''Warning: ODBCINST not set - driver lookup may fail''] w))"

text \<open>
  The last handler of the outer \<open>try\<close> of a tester, \<open>except Exception as e\<close>: it catches
  what \<open>exists()\<close> and \<open>read_ini_file\<close> raise before the connection is attempted, prints two
  lines and returns \<open>False\<close>.
\<close>

definition report_exception :: "manager \<Rightarrow> string \<Rightarrow> py_exception \<Rightarrow> world \<Rightarrow> bool \<times> world" where
  "report_exception m display e w =
     (False, say [Cross (manager_name m @ '' connection failed: '' @ exception_str e),
                  Text (''Connection string used: '' @ display)] w)"

text \<open>
  The two testers have the same body up to the name of the manager and the lines printed
  on failure; \<open>test_dsn_body\<close> is that body from the point where \<open>pyodbc\<close> is imported,
  with \<open>connect\<close> for \<open>pyodbc.connect\<close> and the test query. An exception raised before
  the connection is attempted is caught by the last handler of the outer \<open>try\<close>.
\<close>

definition test_dsn_body ::
  "manager \<Rightarrow> odbc_manager \<Rightarrow> string \<Rightarrow> string option \<Rightarrow> string option
     \<Rightarrow> (nat \<Rightarrow> string \<Rightarrow> connect_outcome) \<Rightarrow> world \<Rightarrow> bool \<times> world" where
  "test_dsn_body m self dsn_name username password connect w =
     (let strs = (conn_str dsn_name username password, display_conn_str dsn_name username password)
      in case set_environment m self (snd strs) w of
           (Inl e, w) \<Rightarrow> report_exception m (snd strs) e w
         | (Inr odbcinst_path, w) \<Rightarrow>
             (case check_driver_setting self dsn_name username password odbcinst_path strs w of
                (Inl e, w) \<Rightarrow> report_exception m (snd strs) e w
              | (Inr strs, w) \<Rightarrow> attempt m strs connect w))"

text \<open>
  A tester gives its return value, or the exception that leaves it. When \<open>pyodbc\<close> is not
  installed, \<open>import pyodbc\<close> raises \<open>ImportError\<close> inside the outer \<open>try\<close>. In
  \<open>test_dsn_unixodbc\<close> the first handler of that \<open>try\<close> is \<open>except pyodbc.Error\<close>: to match
  the exception Python evaluates \<open>pyodbc.Error\<close>, the local name \<open>pyodbc\<close> is not bound, and
  \<open>UnboundLocalError\<close> leaves the function. In \<open>test_dsn_iodbc\<close> the first handler is
  \<open>except ImportError\<close>, which prints a line and returns \<open>False\<close>.
\<close>

definition test_dsn_unixodbc ::
  "odbc_manager \<Rightarrow> string \<Rightarrow> string option \<Rightarrow> string option \<Rightarrow> world
     \<Rightarrow> (py_exception + bool) \<times> world" where
  "test_dsn_unixodbc self dsn_name username password w =
     (let w = say [Text ''Testing with unixODBC (standard ODBC)...''] w in
      case pyodbc w of
        None \<Rightarrow> (Inl (UnboundLocalError ''pyodbc''), w)
      | Some connect \<Rightarrow>
          (case test_dsn_body Unixodbc self dsn_name username password connect w of
             (r, w) \<Rightarrow> (Inr r, w)))"

definition test_dsn_iodbc ::
  "odbc_manager \<Rightarrow> string \<Rightarrow> string option \<Rightarrow> string option \<Rightarrow> world
     \<Rightarrow> (py_exception + bool) \<times> world" where
  "test_dsn_iodbc self dsn_name username password w =
     (let w = say [Text ''Testing with iODBC (standard ODBC)...''] w in
      case pyodbc w of
        None \<Rightarrow>
          (Inr False, say [Cross ''pyodbc library not found - install with: pip install pyodbc''] w)
      | Some connect \<Rightarrow>
          (case test_dsn_body Iodbc self dsn_name username password connect w of
             (r, w) \<Rightarrow> (Inr r, w)))"

text \<open>
  What the user types at the three prompts of \<open>test_dsn\<close>: the choice of credentials, the
  user name and the password.
\<close>

record typed =
  typed_choice :: string
  typed_username :: string
  typed_password :: string

text \<open>The credentials \<open>test_dsn\<close> passes on: \<open>(username, password)\<close>.\<close>

definition credentials :: "typed \<Rightarrow> string option \<times> string option" where
  "credentials t =
     (let cred_choice = (if strip (typed_choice t) = [] then ''1'' else strip (typed_choice t)) in
      if cred_choice = ''2''
      then (let username = strip (typed_username t) in
            if username = [] then (None, None) else (Some username, Some (typed_password t)))
      else (None, None))"

text \<open>
  \<open>test_dsn\<close> up to its verdict: the exception that leaves it, or \<open>None\<close> when it returns
  before any test, or the value of \<open>success\<close>. The prompts are not recorded in the output.
  The menu that follows the verdict, which starts further tests when the user asks for
  them, is left out. The argument \<open>mgr\<close> is the parameter \<open>manager\<close>, \<open>None\<close> for both
  managers.
\<close>

definition test_dsn ::
  "odbc_manager \<Rightarrow> string \<Rightarrow> manager option \<Rightarrow> typed \<Rightarrow> world
     \<Rightarrow> (py_exception + bool option) \<times> world" where
  "test_dsn self dsn_name mgr t w =
     (case show_dsn_details self dsn_name w of
        (Inl e, w) \<Rightarrow> (Inl e, w)
      | (Inr dsn_config, w) \<Rightarrow>
          if dsn_config = None \<or> dsn_config = Some []
          then (Inr None, say [Text ''DSN not found or invalid''] w)
          else
            (let w = say [Text ''Connection credentials:'',
                          Text ''  1) Use credentials from DSN configuration'',
                          Text ''  2) Enter custom credentials for this test''] w;
                 username = fst (credentials t);
                 password = snd (credentials t);
                 w = say [Text [], Text (''Testing DSN: '' @ dsn_name), Rule] w;
                 success = False
             in case (if mgr = Some Unixodbc \<or> (mgr = None \<and> has_unixodbc self)
                      then (case test_dsn_unixodbc self dsn_name username password w of
                              (Inl e, w) \<Rightarrow> (Inl e, w)
                            | (Inr r, w) \<Rightarrow> (Inr (r \<or> success), say [Text []] w))
                      else (Inr success, w)) of
                  (Inl e, w) \<Rightarrow> (Inl e, w)
                | (Inr success, w) \<Rightarrow>
                    (case (if mgr = Some Iodbc \<or> (mgr = None \<and> has_iodbc self)
                           then (case test_dsn_iodbc self dsn_name username password w of
                                   (Inl e, w) \<Rightarrow> (Inl e, w)
                                 | (Inr r, w) \<Rightarrow> (Inr (r \<or> success), w))
                           else (Inr success, w)) of
                       (Inl e, w) \<Rightarrow> (Inl e, w)
                     | (Inr success, w) \<Rightarrow>
                         (let w = say [Rule] w;
                              w = say [if success
                                       then Check (''DSN '' @ quoted dsn_name @ '' is working'')
                                       else Cross (''DSN '' @ quoted dsn_name
                                                     @ '' failed connection tests'')] w
                          in (Inr (Some success), w)))))"

section \<open>Writing a configuration file\<close>

text \<open>
  Modelled from the spec: the text of a store. \<open>write_ini_file\<close> hands the writing to
  \<open>ConfigParser.write(f, space_around_delimiters=True)\<close> of the Python library, whose code
  is not in the repository. The spec has the sections in the order of the store, each
  key and value on a line \<open>key = value\<close> of its own, and a blank line after a section.
\<close>

definition serialize_item :: "string \<times> string \<Rightarrow> string" where
  "serialize_item item = fst item @ '' = '' @ snd item @ [CHR 0x0A]"

definition serialize_section :: "string \<times> config_section \<Rightarrow> string" where
  "serialize_section s =
     ''['' @ fst s @ '']'' @ [CHR 0x0A] @ concat (map serialize_item (snd s)) @ [CHR 0x0A]"

definition serialize :: "config_store \<Rightarrow> string" where
  "serialize store = concat (map serialize_section store)"


section \<open>Properties of \<open>read_ini_file\<close>\<close>

text \<open>
  The three kinds of line the loop tells apart: a line that is skipped (blank or a comment),
  a section header, and the name a header carries. \<open>reserved\<close> holds for the two names the
  loop does not open a section for. \<open>body_section\<close> is the section built from the lines
  that follow a header.
\<close>

definition skip_line :: "string \<Rightarrow> bool" where
  "skip_line raw = (strip raw = [] \<or> startswith (strip raw) ''#'' \<or> startswith (strip raw) '';'')"

definition is_header :: "string \<Rightarrow> bool" where
  "is_header raw = (\<not> skip_line raw \<and> startswith (strip raw) ''['' \<and> endswith (strip raw) '']'')"

definition header_name :: "string \<Rightarrow> string" where
  "header_name raw = strip (slice_1_m1 (strip raw))"

definition reserved :: "string \<Rightarrow> bool" where
  "reserved name = (name \<in> set [''ODBC'', ''ODBC Data Sources''])"

text \<open>A line that opens a section: a header whose name is not one of the two.\<close>

definition opens_section :: "string \<Rightarrow> bool" where
  "opens_section raw = (is_header raw \<and> \<not> reserved (header_name raw))"

definition body_step :: "string \<Rightarrow> config_section \<Rightarrow> config_section" where
  "body_step raw sec =
     (if \<not> skip_line raw \<and> CHR ''='' \<in> set (strip raw)
      then dict_set (strip (fst (split_eq (strip raw)))) (strip (snd (split_eq (strip raw)))) sec
      else sec)"

fun body_section :: "string list \<Rightarrow> config_section \<Rightarrow> config_section" where
  "body_section [] sec = sec"
| "body_section (raw # rest) sec = body_section rest (body_step raw sec)"

text \<open>
  What holds of the state all along the loop: the names are pairwise different, and the
  open section is the last one of the dictionary.
\<close>

definition state_ok :: "parse_state \<Rightarrow> bool" where
  "state_ok st = (distinct (keys (dsn_dict st)) \<and>
     (case current_section st of
        None \<Rightarrow> True
      | Some c \<Rightarrow> dsn_dict st \<noteq> [] \<and> fst (last (dsn_dict st)) = c))"



subsection \<open>Dictionaries and the renaming loop\<close>

lemma keys_append [simp]: "keys (d @ e) = keys d @ keys e"
  by (simp add: keys_def)

lemma keys_Cons [simp]: "keys (p # d) = fst p # keys d" "keys [] = []"
  by (simp_all add: keys_def)

lemma dict_set_fresh: "k \<notin> set (keys d) \<Longrightarrow> dict_set k v d = d @ [(k, v)]"
  by (induction d) auto

lemma dict_set_last: "k \<notin> set (keys d) \<Longrightarrow> dict_set k v (d @ [(k, u)]) = d @ [(k, v)]"
  by (induction d) auto

lemma dict_get_last: "k \<notin> set (keys d) \<Longrightarrow> dict_get (d @ [(k, v)]) k = Some v"
  by (induction d) (auto simp: dict_get_def)

lemma unique_name_fresh: "\<not> dict_has (unique_name a s c d) d"
  by (induction a s c d rule: unique_name.induct) (simp add: unique_name.simps)

lemma unique_name_renamed:
  "dict_has s d \<Longrightarrow> \<exists>k\<ge>c. unique_name a s c d = renamed a k \<and>
      (\<forall>j. c \<le> j \<and> j < k \<longrightarrow> dict_has (renamed a j) d)"
proof (induction a s c d rule: unique_name.induct)
  case (1 a s c d)
  show ?case
  proof (cases "dict_has (renamed a c) d")
    case True
    from "1.IH" [OF "1.prems" True] obtain k where k: "c + 1 \<le> k"
      "unique_name a (renamed a c) (c + 1) d = renamed a k"
      "\<forall>j. c + 1 \<le> j \<and> j < k \<longrightarrow> dict_has (renamed a j) d"
      by blast
    have "\<forall>j. c \<le> j \<and> j < k \<longrightarrow> dict_has (renamed a j) d"
    proof (intro allI impI)
      fix j assume "c \<le> j \<and> j < k"
      then consider "j = c" | "c + 1 \<le> j \<and> j < k" by fastforce
      then show "dict_has (renamed a j) d"
        using True k(3) by cases auto
    qed
    with k "1.prems" show ?thesis
      by (subst unique_name.simps) (auto intro!: exI [of _ k])
  next
    case False
    with "1.prems" have "unique_name a s c d = renamed a c"
      by (simp add: unique_name.simps [of a s] unique_name.simps [of a "renamed a c"])
    then show ?thesis by (intro exI [of _ c]) auto
  qed
qed



subsection \<open>The loop over the lines\<close>

lemma process_line_skip: "skip_line raw \<Longrightarrow> process_line raw st = Inr st"
  by (auto simp: process_line_def skip_line_def)

lemma process_line_reserved:
  "is_header raw \<Longrightarrow> reserved (header_name raw) \<Longrightarrow>
   process_line raw st = Inr (st\<lparr>current_section := None\<rparr>)"
  by (simp add: process_line_def is_header_def skip_line_def header_name_def reserved_def)

lemma process_line_header:
  assumes "is_header raw" "\<not> reserved (header_name raw)"
  shows "process_line raw st =
     Inr (st\<lparr>dsn_dict := dsn_dict st @
                 [(unique_name (header_name raw) (header_name raw) 1 (dsn_dict st), [])],
              current_section := Some (unique_name (header_name raw) (header_name raw) 1 (dsn_dict st)),
              printed := printed st @
                 (if unique_name (header_name raw) (header_name raw) 1 (dsn_dict st) \<noteq> header_name raw
                  then [duplicate_warning (header_name raw)
                          (unique_name (header_name raw) (header_name raw) 1 (dsn_dict st))]
                  else [])\<rparr>)"
proof -
  have "dict_set (unique_name (header_name raw) (header_name raw) 1 (dsn_dict st)) [] (dsn_dict st)
      = dsn_dict st @ [(unique_name (header_name raw) (header_name raw) 1 (dsn_dict st), [])]"
    using unique_name_fresh [of "header_name raw" "header_name raw" 1 "dsn_dict st"]
    by (simp add: dict_set_fresh dict_has_def)
  with assms show ?thesis
    by (simp add: process_line_def is_header_def skip_line_def header_name_def reserved_def
        Let_def)
qed

lemma process_line_orphan:
  "\<not> is_header raw \<Longrightarrow> current_section st = None \<Longrightarrow> process_line raw st = Inr st"
  by (auto simp: process_line_def is_header_def skip_line_def Let_def)

lemma state_ok_last:
  assumes "state_ok st" "current_section st = Some c"
  shows "dsn_dict st = butlast (dsn_dict st) @ [(c, snd (last (dsn_dict st)))]"
    and "c \<notin> set (keys (butlast (dsn_dict st)))"
proof -
  from assms have ne: "dsn_dict st \<noteq> []" and l: "fst (last (dsn_dict st)) = c"
    and d: "distinct (keys (dsn_dict st))"
    by (simp_all add: state_ok_def)
  from ne have "dsn_dict st = butlast (dsn_dict st) @ [last (dsn_dict st)]" by simp
  with l show e: "dsn_dict st = butlast (dsn_dict st) @ [(c, snd (last (dsn_dict st)))]"
    by (metis prod.collapse)
  from d have "distinct (keys (butlast (dsn_dict st) @ [(c, snd (last (dsn_dict st)))]))"
    using e by simp
  then show "c \<notin> set (keys (butlast (dsn_dict st)))"
    by simp
qed

lemma process_line_body:
  assumes "\<not> is_header raw" "state_ok st" "current_section st = Some c"
  shows "process_line raw st =
     Inr (st\<lparr>dsn_dict := butlast (dsn_dict st) @
                 [(c, body_step raw (snd (last (dsn_dict st))))]\<rparr>)"
proof -
  let ?d = "butlast (dsn_dict st)" and ?s = "snd (last (dsn_dict st))"
  note e = state_ok_last [OF assms(2,3)]
  have g: "dict_get (dsn_dict st) c = Some ?s"
    by (subst e(1)) (rule dict_get_last [OF e(2)])
  have u: "dict_set c v (dsn_dict st) = ?d @ [(c, v)]" for v
    by (subst e(1)) (rule dict_set_last [OF e(2)])
  have same: "st\<lparr>dsn_dict := ?d @ [(c, ?s)]\<rparr> = st"
    using e(1) by simp
  show ?thesis
  proof (cases "skip_line raw")
    case True
    then show ?thesis
      by (simp add: process_line_skip body_step_def same)
  next
    case False
    with assms(1,3) g u same show ?thesis
      by (auto simp: process_line_def is_header_def skip_line_def body_step_def Let_def)
  qed
qed

lemma state_ok_step:
  assumes "state_ok st"
  shows "\<exists>st'. process_line raw st = Inr st' \<and> state_ok st'"
proof (cases "is_header raw")
  case h: True
  show ?thesis
  proof (cases "reserved (header_name raw)")
    case True
    with h assms show ?thesis
      by (simp add: process_line_reserved state_ok_def)
  next
    case False
    with h assms show ?thesis
      using unique_name_fresh [of "header_name raw" "header_name raw" 1 "dsn_dict st"]
      by (simp add: process_line_header state_ok_def dict_has_def)
  qed
next
  case h: False
  show ?thesis
  proof (cases "current_section st")
    case None
    with h assms show ?thesis
      by (simp add: process_line_orphan)
  next
    case (Some c)
    note e = state_ok_last [OF assms Some]
    have "distinct (keys (butlast (dsn_dict st)))"
      using assms by (subst (asm) state_ok_def, subst (asm) e(1)) simp
    with h assms Some e(2) show ?thesis
      by (simp add: process_line_body state_ok_def)
  qed
qed

lemma state_ok_initial: "state_ok initial_state"
  by (simp add: state_ok_def initial_state_def)

lemma process_lines_ok:
  "state_ok st \<Longrightarrow> \<exists>st'. process_lines ls st = (None, st') \<and> state_ok st'"
proof (induction ls arbitrary: st)
  case Nil
  then show ?case by simp
next
  case (Cons l ls)
  from state_ok_step [OF Cons.prems, of l] obtain st1
    where "process_line l st = Inr st1" "state_ok st1" by blast
  with Cons.IH [of st1] show ?case by simp
qed

lemma process_lines_append:
  "process_lines xs st = (None, st1) \<Longrightarrow> process_lines (xs @ ys) st = process_lines ys st1"
  by (induction xs arbitrary: st) (auto split: sum.splits)

lemma process_lines_body:
  assumes "\<forall>l\<in>set body. \<not> is_header l" "state_ok st" "current_section st = Some c"
  shows "process_lines body st =
     (None, st\<lparr>dsn_dict := butlast (dsn_dict st) @
                  [(c, body_section body (snd (last (dsn_dict st))))]\<rparr>)"
  using assms
proof (induction body arbitrary: st)
  case Nil
  then show ?case
    using state_ok_last(1) [of st c] by simp
next
  case (Cons l body)
  let ?st1 = "st\<lparr>dsn_dict := butlast (dsn_dict st) @
                 [(c, body_step l (snd (last (dsn_dict st))))]\<rparr>"
  have s: "process_line l st = Inr ?st1"
    using Cons.prems by (simp add: process_line_body)
  have ok: "state_ok ?st1"
    using state_ok_step [OF Cons.prems(2), of l] s by simp
  have c: "current_section ?st1 = Some c"
    using Cons.prems(3) by simp
  from Cons.IH [OF _ ok c] Cons.prems(1) s show ?case
    by simp
qed




lemma read_ini_file_try_content:
  "fs p = Content body \<Longrightarrow> \<exists>st. read_ini_file_try fs p = (None, st) \<and> state_ok st"
  using process_lines_ok [OF state_ok_initial] by (simp add: read_ini_file_try_def)



text \<open>Files for the examples.\<close>

definition example_fs :: filesystem where
  "example_fs = (\<lambda>p.
     if p = ''/etc/odbc.ini'' then Unreadable ''Permission denied''
     else if p = ''/private/odbc.ini'' then Unreachable ''Permission denied''
     else if p = ''orphan.ini'' then Content ''Driver = x\<newline>[A]\<newline>k = v\<newline>''
     else if p = ''thrice.ini'' then Content ''[A]\<newline>x = 1\<newline>[A__1]\<newline>y = 2\<newline>[A]\<newline>z = 3\<newline>''
     else Absent)"

subsection \<open>Names stay different\<close>

lemma unique_name_free: "\<not> dict_has s d \<Longrightarrow> unique_name a s c d = s"
  by (simp add: unique_name.simps)

lemma process_line_count:
  assumes "state_ok st"
  shows "\<exists>st'. process_line raw st = Inr st' \<and> state_ok st' \<and>
           length (dsn_dict st') = length (dsn_dict st) + (if opens_section raw then 1 else 0)"
proof (cases "is_header raw")
  case h: True
  show ?thesis
  proof (cases "reserved (header_name raw)")
    case True
    with h assms show ?thesis
      by (simp add: process_line_reserved state_ok_def opens_section_def)
  next
    case False
    with h assms show ?thesis
      using unique_name_fresh [of "header_name raw" "header_name raw" 1 "dsn_dict st"]
      by (simp add: process_line_header state_ok_def dict_has_def opens_section_def)
  qed
next
  case h: False
  show ?thesis
  proof (cases "current_section st")
    case None
    with h assms show ?thesis
      by (simp add: process_line_orphan opens_section_def)
  next
    case (Some c)
    let ?st' = "st\<lparr>dsn_dict := butlast (dsn_dict st) @
                   [(c, body_step raw (snd (last (dsn_dict st))))]\<rparr>"
    have s: "process_line raw st = Inr ?st'"
      using h assms Some by (simp add: process_line_body)
    have ok: "state_ok ?st'"
      using state_ok_step [OF assms, of raw] s by simp
    from assms Some have "dsn_dict st \<noteq> []" by (simp add: state_ok_def)
    then have "length (dsn_dict ?st') = length (dsn_dict st)" by simp
    with h s ok show ?thesis
      by (simp add: opens_section_def)
  qed
qed

lemma process_lines_count:
  "state_ok st \<Longrightarrow> \<exists>st'. process_lines ls st = (None, st') \<and> state_ok st' \<and>
     length (dsn_dict st') = length (dsn_dict st) + length (filter opens_section ls)"
proof (induction ls arbitrary: st)
  case Nil
  then show ?case by simp
next
  case (Cons l ls)
  from process_line_count [OF Cons.prems, of l] obtain st1
    where s: "process_line l st = Inr st1" "state_ok st1"
      "length (dsn_dict st1) = length (dsn_dict st) + (if opens_section l then 1 else 0)"
    by blast
  from Cons.IH [OF s(2)] obtain st'
    where "process_lines ls st1 = (None, st')" "state_ok st'"
      "length (dsn_dict st') = length (dsn_dict st1) + length (filter opens_section ls)"
    by blast
  with s show ?case by simp
qed

lemma read_ini_file_content:
  assumes "fs p = Content body" "p \<noteq> []"
  shows "\<exists>st. read_ini_file fs (Some p) = Inr (dsn_dict st, printed st) \<and> state_ok st \<and>
           length (dsn_dict st) = length (filter opens_section (file_lines body))"
proof -
  from process_lines_count [OF state_ok_initial, of "file_lines body"] obtain st
    where "process_lines (file_lines body) initial_state = (None, st)" "state_ok st"
      "length (dsn_dict st) = length (filter opens_section (file_lines body))"
    by (auto simp: initial_state_def)
  with assms show ?thesis
    by (intro exI [of _ st])
      (simp add: read_ini_file_def path_exists_def read_ini_file_found_def read_ini_file_try_def)
qed

lemma read_ini_file_distinct:
  assumes "read_ini_file fs filepath = Inr (store, ws)"
  shows "distinct (keys store)"
proof (cases filepath)
  case None
  with assms show ?thesis by (simp add: read_ini_file_def)
next
  case (Some p)
  show ?thesis
  proof (cases "p = []")
    case True
    with Some assms show ?thesis by (simp add: read_ini_file_def)
  next
    case ne: False
    show ?thesis
    proof (cases "fs p")
      case Absent
      with Some ne assms show ?thesis by (simp add: read_ini_file_def path_exists_def)
    next
      case (Unreachable msg)
      with Some ne assms show ?thesis by (simp add: read_ini_file_def path_exists_def)
    next
      case (Unreadable msg)
      with Some ne assms show ?thesis
        by (auto simp: read_ini_file_def path_exists_def read_ini_file_found_def
            read_ini_file_try_def initial_state_def)
    next
      case (Content body)
      from read_ini_file_content [of fs p body] this ne assms Some show ?thesis
        by (auto simp: state_ok_def)
    qed
  qed
qed

text \<open>
  C9: a header line that opens a section never writes over a section that is there. The
  renaming loop ends at a name that is not in the dictionary: the name of the header when
  that is free, and the name with a counter \<open>k \<ge> 1\<close> otherwise; the section is added at the
  end of the dictionary under that name, and the sections before it stay. So, whatever the
  path holds, the names of the sections of the dictionary that \<open>read_ini_file\<close> returns are
  pairwise different, and for a file that can be read the dictionary has one section for
  every header line that opens one.
\<close>

theorem read_ini_file_names_distinct:
  "(opens_section raw \<longrightarrow>
      (\<exists>n out. process_line raw st =
                  Inr (st\<lparr>dsn_dict := dsn_dict st @ [(n, [])], current_section := Some n,
                          printed := printed st @ out\<rparr>) \<and>
                \<not> dict_has n (dsn_dict st) \<and>
                (if dict_has (header_name raw) (dsn_dict st)
                 then \<exists>k\<ge>1. n = renamed (header_name raw) k
                 else n = header_name raw)))
   \<and> (read_ini_file fs filepath = Inr (store, ws) \<longrightarrow> distinct (keys store))
   \<and> (fs p = Content body \<and> p \<noteq> [] \<longrightarrow>
        (\<exists>store' ws'. read_ini_file fs (Some p) = Inr (store', ws') \<and> distinct (keys store') \<and>
           length store' = length (filter opens_section (file_lines body))))"
proof (intro conjI impI)
  assume o: "opens_section raw"
  let ?A = "header_name raw" and ?d = "dsn_dict st"
  let ?n = "unique_name ?A ?A 1 ?d"
  have f: "\<not> dict_has ?n ?d" by (rule unique_name_fresh)
  have k: "if dict_has ?A ?d then \<exists>k\<ge>1. ?n = renamed ?A k else ?n = ?A"
    using unique_name_renamed [of ?A ?d 1 ?A] unique_name_free [of ?A ?d ?A 1] by auto
  from o have "process_line raw st =
      Inr (st\<lparr>dsn_dict := ?d @ [(?n, [])], current_section := Some ?n,
              printed := printed st @
                (if ?n \<noteq> ?A then [duplicate_warning ?A ?n] else [])\<rparr>)"
    by (simp add: opens_section_def process_line_header)
  with f k show "\<exists>n out. process_line raw st =
                  Inr (st\<lparr>dsn_dict := ?d @ [(n, [])], current_section := Some n,
                          printed := printed st @ out\<rparr>) \<and>
                \<not> dict_has n ?d \<and>
                (if dict_has ?A ?d then \<exists>k\<ge>1. n = renamed ?A k else n = ?A)"
    by blast
next
  assume "read_ini_file fs filepath = Inr (store, ws)"
  then show "distinct (keys store)" by (rule read_ini_file_distinct)
next
  assume "fs p = Content body \<and> p \<noteq> []"
  then have c: "fs p = Content body" and ne: "p \<noteq> []" by simp_all
  from read_ini_file_content [of fs p body] c ne obtain st' where
    "read_ini_file fs (Some p) = Inr (dsn_dict st', printed st')" "state_ok st'"
    "length (dsn_dict st') = length (filter opens_section (file_lines body))" by blast
  then show "\<exists>store' ws'. read_ini_file fs (Some p) = Inr (store', ws') \<and> distinct (keys store') \<and>
           length store' = length (filter opens_section (file_lines body))"
    by (auto simp: state_ok_def)
qed

text \<open>
  The file \<open>thrice.ini\<close> has the headers \<open>[A]\<close>, \<open>[A__1]\<close> and \<open>[A]\<close> again: the third
  header finds \<open>A\<close> and \<open>A__1\<close> taken and opens \<open>A__2\<close>.
\<close>

theorem read_ini_file_names_distinct_witness:
  "opens_section ''[A]\<newline>''
   \<and> (\<exists>n out. process_line ''[A]\<newline>''
                 \<lparr>dsn_dict = [(''A'', [(''x'', ''1'')]), (''A__1'', [(''y'', ''2'')])],
                  current_section = Some ''A__1'', printed = []\<rparr> =
                Inr \<lparr>dsn_dict = [(''A'', [(''x'', ''1'')]), (''A__1'', [(''y'', ''2'')])] @ [(n, [])],
                     current_section = Some n, printed = [] @ out\<rparr> \<and>
              \<not> dict_has n [(''A'', [(''x'', ''1'')]), (''A__1'', [(''y'', ''2'')])] \<and>
              (\<exists>k\<ge>1. n = renamed ''A'' k))
   \<and> process_line ''[A]\<newline>''
        \<lparr>dsn_dict = [(''A'', [(''x'', ''1'')]), (''A__1'', [(''y'', ''2'')])],
         current_section = Some ''A__1'', printed = []\<rparr> =
       Inr \<lparr>dsn_dict = [(''A'', [(''x'', ''1'')]), (''A__1'', [(''y'', ''2'')]), (''A__2'', [])],
            current_section = Some ''A__2'',
            printed = [''Warning: Duplicate section '' @ [CHR 0x27] @ ''A'' @ [CHR 0x27]
                         @ '' renamed to '' @ [CHR 0x27] @ ''A__2'' @ [CHR 0x27]]\<rparr>
   \<and> read_ini_file example_fs (Some ''thrice.ini'') =
       Inr ([(''A'', [(''x'', ''1'')]), (''A__1'', [(''y'', ''2'')]), (''A__2'', [(''z'', ''3'')])],
            [''Warning: Duplicate section '' @ [CHR 0x27] @ ''A'' @ [CHR 0x27]
               @ '' renamed to '' @ [CHR 0x27] @ ''A__2'' @ [CHR 0x27]])
   \<and> distinct (keys [(''A'', [(''x'', ''1'')]), (''A__1'', [(''y'', ''2'')]), (''A__2'', [(''z'', ''3'')])])
   \<and> example_fs ''thrice.ini'' = Content ''[A]\<newline>x = 1\<newline>[A__1]\<newline>y = 2\<newline>[A]\<newline>z = 3\<newline>''
   \<and> length (filter opens_section
        (file_lines ''[A]\<newline>x = 1\<newline>[A__1]\<newline>y = 2\<newline>[A]\<newline>z = 3\<newline>'')) = 3"
proof -
  let ?d = "[(''A'', [(''x'', ''1'')]), (''A__1'', [(''y'', ''2'')])]"
  let ?st = "\<lparr>dsn_dict = ?d, current_section = Some ''A__1'', printed = []\<rparr>"
  let ?store = "[(''A'', [(''x'', ''1'')]), (''A__1'', [(''y'', ''2'')]), (''A__2'', [(''z'', ''3'')])]"
  let ?ws = "[''Warning: Duplicate section '' @ [CHR 0x27] @ ''A'' @ [CHR 0x27]
               @ '' renamed to '' @ [CHR 0x27] @ ''A__2'' @ [CHR 0x27]]"
  let ?body = "''[A]\<newline>x = 1\<newline>[A__1]\<newline>y = 2\<newline>[A]\<newline>z = 3\<newline>''"
  have a: "opens_section ''[A]\<newline>''" by code_simp
  have n: "header_name ''[A]\<newline>'' = ''A''" by code_simp
  have h: "dict_has (header_name ''[A]\<newline>'') (dsn_dict ?st)" by code_simp
  have b: "process_line ''[A]\<newline>'' ?st =
       Inr \<lparr>dsn_dict = [(''A'', [(''x'', ''1'')]), (''A__1'', [(''y'', ''2'')]), (''A__2'', [])],
            current_section = Some ''A__2'', printed = ?ws\<rparr>"
    by code_simp
  have c: "read_ini_file example_fs (Some ''thrice.ini'') = Inr (?store, ?ws)" by code_simp
  have e: "example_fs ''thrice.ini'' = Content ?body" by (simp add: example_fs_def)
  have l: "length (filter opens_section (file_lines ?body)) = 3" by code_simp
  note t = read_ini_file_names_distinct [of "''[A]\<newline>''" ?st example_fs "Some ''thrice.ini''"
      ?store ?ws "''thrice.ini''" ?body]
  from t a h have 1: "\<exists>n out. process_line ''[A]\<newline>'' ?st =
                Inr \<lparr>dsn_dict = ?d @ [(n, [])], current_section = Some n, printed = [] @ out\<rparr> \<and>
              \<not> dict_has n ?d \<and> (\<exists>k\<ge>1. n = renamed ''A'' k)"
    unfolding n by simp
  from t c have 2: "distinct (keys ?store)" by blast
  from 1 2 a b c e l show ?thesis by blast
qed

subsection \<open>A section that comes twice\<close>




subsection \<open>A key line with no open section\<close>

text \<open>
  C5, as the code has it: let the lines \<open>pre\<close> have been read and no section be open. A
  line with \<open>=\<close> that is not a header leaves the state as it is: nothing is stored and
  nothing is printed, no warning either. The parse goes on to the end of the file without
  an exception, and its result is the result for the file without that line.
\<close>

theorem orphan_line_discarded:
  assumes "process_lines pre initial_state = (None, st)" "current_section st = None"
    and "\<not> is_header raw" "CHR ''='' \<in> set (strip raw)"
  shows "process_line raw st = Inr st
    \<and> process_lines (pre @ raw # rest) initial_state = process_lines (pre @ rest) initial_state
    \<and> fst (process_lines (pre @ raw # rest) initial_state) = None"
proof -
  have s: "process_line raw st = Inr st"
    using assms(2,3) by (rule process_line_orphan [rotated])
  have "process_lines (pre @ raw # rest) initial_state = process_lines (raw # rest) st"
    using assms(1) by (rule process_lines_append)
  also have "\<dots> = process_lines rest st" using s by simp
  also have "\<dots> = process_lines (pre @ rest) initial_state"
    using assms(1) by (rule process_lines_append [symmetric])
  finally have e: "process_lines (pre @ raw # rest) initial_state
    = process_lines (pre @ rest) initial_state" .
  from process_lines_ok [OF state_ok_initial, of "pre @ raw # rest"]
  have "fst (process_lines (pre @ raw # rest) initial_state) = None" by auto
  with s e show ?thesis by blast
qed

theorem orphan_line_discarded_witness:
  "process_lines [''[ODBC Data Sources]\<newline>''] initial_state = (None, initial_state)
   \<and> current_section initial_state = None \<and> \<not> is_header ''Driver = x\<newline>''
   \<and> CHR ''='' \<in> set (strip ''Driver = x\<newline>'')
   \<and> process_line ''Driver = x\<newline>'' initial_state = Inr initial_state
   \<and> process_lines ([''[ODBC Data Sources]\<newline>''] @ ''Driver = x\<newline>'' # [''[A]\<newline>'']) initial_state
       = process_lines ([''[ODBC Data Sources]\<newline>''] @ [''[A]\<newline>'']) initial_state
   \<and> fst (process_lines ([''[ODBC Data Sources]\<newline>''] @ ''Driver = x\<newline>'' # [''[A]\<newline>''])
          initial_state) = None"
proof -
  have p: "process_lines [''[ODBC Data Sources]\<newline>''] initial_state = (None, initial_state)"
    by code_simp
  have a: "current_section initial_state = None" by (simp add: initial_state_def)
  have b: "\<not> is_header ''Driver = x\<newline>''" by code_simp
  have c: "CHR ''='' \<in> set (strip ''Driver = x\<newline>'')" by code_simp
  from orphan_line_discarded [OF p a b c, of "[''[A]\<newline>'']"] p a b c show ?thesis by blast
qed

text \<open>
  The file \<open>orphan.ini\<close> begins with the line \<open>Driver = x\<close>, before any header. The line is
  dropped and no warning is printed.
\<close>

theorem orphan_line_counterexample:
  "read_ini_file example_fs (Some ''orphan.ini'') = Inr ([(''A'', [(''k'', ''v'')])], [])"
  by code_simp

subsection \<open>Files that are absent or cannot be read\<close>

text \<open>
  C4, as the code has it: for a path that holds nothing, \<open>read_ini_file\<close> returns the empty
  dictionary and prints nothing. For a file that is there and cannot be opened, the
  exception is caught in the function: it prints one warning and returns the empty
  dictionary. For a file that can be read, no exception is raised, whatever its text. An
  exception leaves \<open>read_ini_file\<close> in one case only: the path cannot be examined, and the
  \<open>OSError\<close> of \<open>exists()\<close>, which is called before the \<open>try\<close>, is the exception.
\<close>

theorem read_ini_file_failures:
  "(fs p = Absent \<longrightarrow> read_ini_file fs (Some p) = Inr ([], []))
   \<and> (fs q = Unreadable msg \<and> q \<noteq> [] \<longrightarrow>
        read_ini_file fs (Some q) = Inr ([], [read_warning q (OSError msg)]))
   \<and> (fs r = Content body \<longrightarrow>
        fst (read_ini_file_try fs r) = None \<and>
        (\<exists>store ws. read_ini_file fs (Some r) = Inr (store, ws)))
   \<and> ((read_ini_file fs filepath = Inl e) =
        (\<exists>u msg'. filepath = Some u \<and> u \<noteq> [] \<and> fs u = Unreachable msg' \<and> e = OSError msg'))"
proof (intro conjI impI)
  assume "fs p = Absent"
  then show "read_ini_file fs (Some p) = Inr ([], [])"
    by (simp add: read_ini_file_def path_exists_def)
next
  assume "fs q = Unreadable msg \<and> q \<noteq> []"
  then show "read_ini_file fs (Some q) = Inr ([], [read_warning q (OSError msg)])"
    by (simp add: read_ini_file_def read_ini_file_found_def read_ini_file_try_def
        path_exists_def initial_state_def)
next
  assume "fs r = Content body"
  from read_ini_file_try_content [of fs r body] this
  show "fst (read_ini_file_try fs r) = None"
    by auto
next
  assume "fs r = Content body"
  then show "\<exists>store ws. read_ini_file fs (Some r) = Inr (store, ws)"
    by (cases "read_ini_file_found fs r") (simp add: read_ini_file_def path_exists_def)
next
  show "(read_ini_file fs filepath = Inl e) =
        (\<exists>u msg'. filepath = Some u \<and> u \<noteq> [] \<and> fs u = Unreachable msg' \<and> e = OSError msg')"
  proof (cases filepath)
    case None
    then show ?thesis by (simp add: read_ini_file_def)
  next
    case (Some u)
    then show ?thesis
      by (cases "fs u") (auto simp: read_ini_file_def path_exists_def)
  qed
qed

theorem read_ini_file_failures_witness:
  "example_fs ''/nowhere/odbc.ini'' = Absent
   \<and> read_ini_file example_fs (Some ''/nowhere/odbc.ini'') = Inr ([], [])
   \<and> example_fs ''/etc/odbc.ini'' = Unreadable ''Permission denied''
   \<and> read_ini_file example_fs (Some ''/etc/odbc.ini'')
       = Inr ([], [read_warning ''/etc/odbc.ini'' (OSError ''Permission denied'')])
   \<and> example_fs ''orphan.ini'' = Content ''Driver = x\<newline>[A]\<newline>k = v\<newline>''
   \<and> fst (read_ini_file_try example_fs ''orphan.ini'') = None
   \<and> (\<exists>store ws. read_ini_file example_fs (Some ''orphan.ini'') = Inr (store, ws))
   \<and> example_fs ''/private/odbc.ini'' = Unreachable ''Permission denied''
   \<and> read_ini_file example_fs (Some ''/private/odbc.ini'') = Inl (OSError ''Permission denied'')"
proof -
  have a: "example_fs ''/nowhere/odbc.ini'' = Absent"
    by (simp add: example_fs_def)
  have b: "example_fs ''/etc/odbc.ini'' = Unreadable ''Permission denied''"
    by (simp add: example_fs_def)
  have c: "example_fs ''orphan.ini'' = Content ''Driver = x\<newline>[A]\<newline>k = v\<newline>''"
    by (simp add: example_fs_def)
  have d: "example_fs ''/private/odbc.ini'' = Unreachable ''Permission denied''"
    by (simp add: example_fs_def)
  note t = read_ini_file_failures [of example_fs "''/nowhere/odbc.ini''" "''/etc/odbc.ini''"
      "''Permission denied''" "''orphan.ini''" "''Driver = x\<newline>[A]\<newline>k = v\<newline>''"
      "Some ''/private/odbc.ini''" "OSError ''Permission denied''"]
  from t a have 1: "read_ini_file example_fs (Some ''/nowhere/odbc.ini'') = Inr ([], [])"
    by blast
  from t b have 2: "read_ini_file example_fs (Some ''/etc/odbc.ini'')
       = Inr ([], [read_warning ''/etc/odbc.ini'' (OSError ''Permission denied'')])"
    by simp
  from t c have 3: "fst (read_ini_file_try example_fs ''orphan.ini'') = None"
    and 4: "\<exists>store ws. read_ini_file example_fs (Some ''orphan.ini'') = Inr (store, ws)"
    by blast+
  from t d have 5: "read_ini_file example_fs (Some ''/private/odbc.ini'')
       = Inl (OSError ''Permission denied'')"
    by simp
  from a b c d 1 2 3 4 5 show ?thesis by blast
qed

text \<open>
  The file \<open>/etc/odbc.ini\<close> is there and cannot be opened: \<open>open\<close> raises inside the
  \<open>try\<close> block, and \<open>read_ini_file\<close> returns all the same, with a warning printed.
\<close>

theorem read_unreadable_counterexample:
  "path_exists example_fs ''/etc/odbc.ini'' = Inr True
   \<and> read_ini_file_try example_fs ''/etc/odbc.ini'' = (Some (OSError ''Permission denied''), initial_state)
   \<and> read_ini_file example_fs (Some ''/etc/odbc.ini'')
       = Inr ([], [''Warning: Error reading /etc/odbc.ini: Permission denied''])"
  by code_simp


section \<open>Properties of \<open>list_dsns_grouped\<close>\<close>

text \<open>
  The order as the spec words it. The driver of a data source is the value of its first
  key that is \<open>driver\<close> in lower case, and \<open>unknown\<close> when it has none; the drivers are
  sorted, the names of the data sources of one driver are sorted, and the groups are put
  one after the other.
\<close>

definition spec_driver :: "config_section \<Rightarrow> string" where
  "spec_driver dsn = (case filter (\<lambda>item. lower (fst item) = ''driver'') dsn of
      [] \<Rightarrow> ''unknown'' | item # _ \<Rightarrow> strip (snd item))"

definition grouped_spec :: "config_store \<Rightarrow> string list" where
  "grouped_spec store =
     concat (map (\<lambda>driver. sort (map fst (filter (\<lambda>item. spec_driver (snd item) = driver) store)))
                 (sort (remdups (map (\<lambda>item. spec_driver (snd item)) store))))"

definition names_of :: "config_store \<Rightarrow> string \<Rightarrow> string list" where
  "names_of store driver = map fst (filter (\<lambda>item. spec_driver (snd item) = driver) store)"

definition listed :: "(string, string list) dict \<Rightarrow> string \<Rightarrow> string list" where
  "listed d k = (case dict_get d k of None \<Rightarrow> [] | Some xs \<Rightarrow> xs)"

text \<open>Worlds for the examples.\<close>

definition zeta_world :: world where
  "zeta_world = \<lparr>files = (\<lambda>p. if p = ''odbc.ini''
       then Content ''[Zeta]\<newline>Driver = B\<newline>[Alpha]\<newline>Driver = A\<newline>[Beta]\<newline>Driver = A\<newline>''
       else Absent),
     environ = (\<lambda>n. None), home = ''/home/u'', stdout = [], connections = [], pyodbc = None\<rparr>"

definition zeta_manager :: odbc_manager where
  "zeta_manager = \<lparr>has_unixodbc = True, has_iodbc = True, odbcini = Some ''odbc.ini'', odbcinst = None\<rparr>"

lemma find_driver_spec: "find_driver ''unknown'' dsn = spec_driver dsn"
  by (induction dsn) (auto simp: spec_driver_def)

lemma dict_get_set: "dict_get (dict_set k v d) k' = (if k' = k then Some v else dict_get d k')"
  by (induction d) (auto simp: dict_get_def)

lemma keys_dict_set:
  "keys (dict_set k v d) = (if k \<in> set (keys d) then keys d else keys d @ [k])"
  by (induction d) auto

lemma dict_get_None: "dict_get d k = None \<longleftrightarrow> k \<notin> set (keys d)"
  by (simp add: dict_get_def keys_def map_of_eq_None_iff)

lemma listed_Nil: "listed [] k = []"
  by (simp add: listed_def dict_get_def)

lemma group_by_driver_get:
  "listed (group_by_driver store acc) k = listed acc k @ names_of store k"
proof (induction store arbitrary: acc)
  case Nil
  then show ?case by (simp add: names_of_def)
next
  case (Cons item store)
  show ?case
    by (simp add: Cons.IH find_driver_spec)
      (auto simp: listed_def dict_append_def dict_get_set names_of_def split: option.splits)
qed

lemma group_by_driver_keys:
  "set (keys (group_by_driver store acc)) = set (keys acc) \<union> (\<lambda>item. spec_driver (snd item)) ` set store"
  by (induction store arbitrary: acc)
    (auto simp: dict_append_def keys_dict_set find_driver_spec split: option.splits)

lemma group_by_driver_distinct:
  "distinct (keys acc) \<Longrightarrow> distinct (keys (group_by_driver store acc))"
  by (induction store arbitrary: acc)
    (auto simp: dict_append_def keys_dict_set split: option.splits)

lemma sort_groups_keys:
  "set ks \<subseteq> set (keys d) \<Longrightarrow> keys (sort_groups ks d) = keys d"
  by (induction ks arbitrary: d) (auto simp: keys_dict_set split: option.splits)

lemma sort_groups_get:
  "listed (sort_groups ks d) k = (if k \<in> set ks then sort (listed d k) else listed d k)"
proof (induction ks arbitrary: d)
  case Nil
  then show ?case by simp
next
  case (Cons a ks)
  show ?case
    by (simp add: Cons.IH) (auto simp: listed_def dict_get_set sorted_sort_id split: option.splits)
qed

lemma extend_all_concat:
  "extend_all ks d acc = acc @ concat (map (listed d) ks)"
  by (induction ks arbitrary: acc) (auto simp: listed_def)

lemma sorted_keys_eq:
  assumes "distinct ks" "set ks = set ds"
  shows "sort ks = sort (remdups ds)"
proof (rule sorted_distinct_set_unique)
  show "sorted (sort ks)" "sorted (sort (remdups ds))" by simp_all
  show "distinct (sort ks)" using assms by simp
  show "distinct (sort (remdups ds))" by simp
  show "set (sort ks) = set (sort (remdups ds))" using assms by simp
qed

lemma grouped_names_spec: "grouped_names store = grouped_spec store"
proof -
  let ?G = "group_by_driver store []"
  let ?S = "sort_groups (sort (keys ?G)) ?G"
  let ?drv = "\<lambda>item. spec_driver (snd item)"
  have kS: "keys ?S = keys ?G"
    by (rule sort_groups_keys) simp
  have kG: "sort (keys ?G) = sort (remdups (map ?drv store))"
    by (rule sorted_keys_eq) (simp_all add: group_by_driver_distinct group_by_driver_keys)
  have g: "listed ?S k = sort (names_of store k)" if "k \<in> set (sort (keys ?G))" for k
    using that by (simp add: sort_groups_get group_by_driver_get listed_Nil)
  have "grouped_names store = concat (map (listed ?S) (sort (keys ?G)))"
    by (simp add: grouped_names_def Let_def extend_all_concat kS)
  also have "\<dots> = concat (map (\<lambda>k. sort (names_of store k)) (sort (keys ?G)))"
  proof -
    have "map (listed ?S) (sort (keys ?G)) = map (\<lambda>k. sort (names_of store k)) (sort (keys ?G))"
      by (rule map_cong [OF refl]) (rule g)
    then show ?thesis by (rule arg_cong)
  qed
  also have "\<dots> = grouped_spec store"
    by (simp add: kG grouped_spec_def names_of_def)
  finally show ?thesis .
qed

text \<open>
  C6: the list that \<open>list_dsns_grouped\<close> returns is the list of the spec, built from the
  dictionary read from the file of data sources; it is empty when there is no such file,
  and when the file cannot be examined the exception of \<open>exists()\<close> leaves the method.
  The result is a function of the manager and the files, so it is the same in every run on
  the same input.
\<close>

theorem list_dsns_grouped_order:
  "fst (list_dsns_grouped self w) =
     (case file_present (files w) (odbcini self) of
        Inl e \<Rightarrow> Inl e
      | Inr found \<Rightarrow>
          if found
          then (case read_ini_file (files w) (odbcini self) of
                  Inl e \<Rightarrow> Inl e
                | Inr r \<Rightarrow> Inr (grouped_spec (fst r)))
          else Inr [])"
  by (auto simp: list_dsns_grouped_def read_ini_def grouped_names_spec grouped_spec_def
      split: prod.splits sum.splits)


text \<open>The data sources Zeta with driver B, Alpha and Beta with driver A.\<close>

theorem list_dsns_grouped_order_witness:
  "file_present (files zeta_world) (odbcini zeta_manager) = Inr True
   \<and> fst (list_dsns_grouped zeta_manager zeta_world) = Inr [''Alpha'', ''Beta'', ''Zeta'']
   \<and> read_ini_file (files zeta_world) (odbcini zeta_manager) =
       Inr ([(''Zeta'', [(''Driver'', ''B'')]), (''Alpha'', [(''Driver'', ''A'')]),
             (''Beta'', [(''Driver'', ''A'')])], [])
   \<and> grouped_spec [(''Zeta'', [(''Driver'', ''B'')]), (''Alpha'', [(''Driver'', ''A'')]),
                    (''Beta'', [(''Driver'', ''A'')])]
       = [''Alpha'', ''Beta'', ''Zeta'']"
proof -
  let ?store = "[(''Zeta'', [(''Driver'', ''B'')]), (''Alpha'', [(''Driver'', ''A'')]),
                 (''Beta'', [(''Driver'', ''A'')])]"
  have a: "file_present (files zeta_world) (odbcini zeta_manager) = Inr True" by code_simp
  have b: "fst (list_dsns_grouped zeta_manager zeta_world) = Inr [''Alpha'', ''Beta'', ''Zeta'']"
    by code_simp
  have c: "read_ini_file (files zeta_world) (odbcini zeta_manager) = Inr (?store, [])"
    by code_simp
  from list_dsns_grouped_order [of zeta_manager zeta_world] a b c
  have "grouped_spec ?store = [''Alpha'', ''Beta'', ''Zeta'']" by simp
  with a b c show ?thesis by blast
qed

section \<open>Properties of \<open>show_dsn_details\<close>\<close>

text \<open>
  A key is a password key when it is \<open>PWD\<close> or \<open>PASSWORD\<close> in upper case. Two sections are
  the same but for the passwords when they have the same keys in the same order and the
  same values at every key that is not a password key.
\<close>

definition is_password_key :: "string \<Rightarrow> bool" where
  "is_password_key key = (upper key \<in> set [''PWD'', ''PASSWORD''])"

definition same_but_passwords :: "config_section \<Rightarrow> config_section \<Rightarrow> bool" where
  "same_but_passwords a b =
     list_all2 (\<lambda>x y. fst x = fst y \<and> (is_password_key (fst x) \<or> snd x = snd y)) a b"

definition sales_world :: world where
  "sales_world = \<lparr>files = (\<lambda>p.
       if p = ''odbc.ini'' then Content ''[Sales]\<newline>Driver = /usr/lib/foo.so\<newline>UID = dba\<newline>Pwd = s3cret\<newline>[Stock]\<newline>DRIVER = /usr/lib/foo.so\<newline>''
       else if p = ''odbcinst.ini'' then Content ''[FooDriver]\<newline>Driver = /usr/lib/foo.so\<newline>''
       else Absent),
     environ = (\<lambda>n. None), home = ''/home/u'', stdout = [], connections = [],
     pyodbc = Some (\<lambda>n s. if n = 0 then Pyodbc_error ''IM002'' else Query_result (Some ''Connection OK''))\<rparr>"

definition sales_manager :: odbc_manager where
  "sales_manager = \<lparr>has_unixodbc = True, has_iodbc = True, odbcini = Some ''odbc.ini'',
     odbcinst = Some ''odbcinst.ini''\<rparr>"


lemma detail_lines_same:
  "same_but_passwords a b \<Longrightarrow> map detail_line a = map detail_line b"
  unfolding same_but_passwords_def
  by (induction rule: list_all2_induct) (auto simp: detail_line_def is_password_key_def)


text \<open>
  C10: for a data source that is in the file, \<open>show_dsn_details\<close> prints the heading, the
  warnings of the parse, one line for each key of the section and the closing rule. The
  line of a password key is the key and the mask \<open>********\<close>; the line of any other key
  is the key and its value. So the lines printed for the section are the same for any
  section that differs in the values of password keys only: they do not depend on the
  stored password.
\<close>

theorem show_dsn_details_masks:
  assumes "file_present (files w) (odbcini self) = Inr True"
    and "read_ini_file (files w) (odbcini self) = Inr (store, warnings)"
    and "dict_get store dsn_name = Some dsn_config"
  shows "stdout (snd (show_dsn_details self dsn_name w)) =
           stdout w @ [Text [], Text (''DSN: '' @ dsn_name), Rule]
             @ map Text warnings
             @ map detail_line dsn_config @ [Rule, Text []]
    \<and> (\<forall>item\<in>set dsn_config. detail_line item =
           (if is_password_key (fst item) then Text (fst item @ '' = ********'')
            else Text (fst item @ '' = '' @ snd item)))
    \<and> (\<forall>other. same_but_passwords dsn_config other \<longrightarrow>
           map detail_line other = map detail_line dsn_config)"
proof (intro conjI)
  from assms
  show "stdout (snd (show_dsn_details self dsn_name w)) =
           stdout w @ [Text [], Text (''DSN: '' @ dsn_name), Rule]
             @ map Text warnings
             @ map detail_line dsn_config @ [Rule, Text []]"
    by (simp add: show_dsn_details_def Let_def say_def read_ini_def)
  show "\<forall>item\<in>set dsn_config. detail_line item =
           (if is_password_key (fst item) then Text (fst item @ '' = ********'')
            else Text (fst item @ '' = '' @ snd item))"
    by (simp add: detail_line_def is_password_key_def)
  show "\<forall>other. same_but_passwords dsn_config other \<longrightarrow>
           map detail_line other = map detail_line dsn_config"
    using detail_lines_same [of dsn_config] by auto
qed

theorem show_dsn_details_masks_witness:
  "file_present (files sales_world) (odbcini sales_manager) = Inr True
   \<and> read_ini_file (files sales_world) (odbcini sales_manager) =
       Inr ([(''Sales'', [(''Driver'', ''/usr/lib/foo.so''), (''UID'', ''dba''), (''Pwd'', ''s3cret'')]),
             (''Stock'', [(''DRIVER'', ''/usr/lib/foo.so'')])], [])
   \<and> dict_get [(''Sales'', [(''Driver'', ''/usr/lib/foo.so''), (''UID'', ''dba''), (''Pwd'', ''s3cret'')]),
                (''Stock'', [(''DRIVER'', ''/usr/lib/foo.so'')])] ''Sales''
       = Some [(''Driver'', ''/usr/lib/foo.so''), (''UID'', ''dba''), (''Pwd'', ''s3cret'')]
   \<and> stdout (snd (show_dsn_details sales_manager ''Sales'' sales_world))
       = [Text [], Text ''DSN: Sales'', Rule, Text ''Driver = /usr/lib/foo.so'',
          Text ''UID = dba'', Text ''Pwd = ********'', Rule, Text []]
   \<and> same_but_passwords
         [(''Driver'', ''/usr/lib/foo.so''), (''UID'', ''dba''), (''Pwd'', ''s3cret'')]
         [(''Driver'', ''/usr/lib/foo.so''), (''UID'', ''dba''), (''Pwd'', ''other'')]
   \<and> map detail_line [(''Driver'', ''/usr/lib/foo.so''), (''UID'', ''dba''), (''Pwd'', ''other'')]
       = map detail_line [(''Driver'', ''/usr/lib/foo.so''), (''UID'', ''dba''), (''Pwd'', ''s3cret'')]"
proof -
  let ?s = "[(''Driver'', ''/usr/lib/foo.so''), (''UID'', ''dba''), (''Pwd'', ''s3cret'')]"
  let ?o = "[(''Driver'', ''/usr/lib/foo.so''), (''UID'', ''dba''), (''Pwd'', ''other'')]"
  let ?store = "[(''Sales'', ?s), (''Stock'', [(''DRIVER'', ''/usr/lib/foo.so'')])]"
  have a: "file_present (files sales_world) (odbcini sales_manager) = Inr True" by code_simp
  have r: "read_ini_file (files sales_world) (odbcini sales_manager) = Inr (?store, [])"
    by code_simp
  have b: "dict_get ?store ''Sales'' = Some ?s" by code_simp
  have c: "stdout (snd (show_dsn_details sales_manager ''Sales'' sales_world))
       = [Text [], Text ''DSN: Sales'', Rule, Text ''Driver = /usr/lib/foo.so'',
          Text ''UID = dba'', Text ''Pwd = ********'', Rule, Text []]" by code_simp
  have d: "same_but_passwords ?s ?o" by code_simp
  from show_dsn_details_masks [OF a r b] d have "map detail_line ?o = map detail_line ?s"
    by blast
  with a r b c d show ?thesis by blast
qed

section \<open>Properties of the testers\<close>

text \<open>
  What a step leaves as it is: the files, the connections made and \<open>pyodbc\<close>. The files
  are \<open>accessible\<close> when every path can be examined, so that \<open>exists()\<close> never raises.
\<close>

definition frame :: "world \<Rightarrow> world \<Rightarrow> bool" where
  "frame w w' = (files w' = files w \<and> connections w' = connections w \<and> pyodbc w' = pyodbc w)"

definition accessible :: "filesystem \<Rightarrow> bool" where
  "accessible fs = (\<forall>p msg. fs p \<noteq> Unreachable msg)"

definition succeeded :: "connect_outcome \<Rightarrow> bool" where
  "succeeded outcome = (outcome = Query_result (Some ''Connection OK''))"

definition available :: "odbc_manager \<Rightarrow> manager \<Rightarrow> bool" where
  "available self m = (case m of Unixodbc \<Rightarrow> has_unixodbc self | Iodbc \<Rightarrow> has_iodbc self)"

lemma frame_refl: "frame w w"
  by (simp add: frame_def)

lemma frame_trans: "frame a b \<Longrightarrow> frame b c \<Longrightarrow> frame a c"
  by (simp add: frame_def)

lemma frame_say: "frame w (say ms w)"
  by (simp add: frame_def say_def)

lemma frame_setenv: "frame w (setenv n v w)"
  by (simp add: frame_def setenv_def)

lemma say_sel [simp]:
  "files (say ms w) = files w" "connections (say ms w) = connections w"
  "pyodbc (say ms w) = pyodbc w"
  by (simp_all add: say_def)

lemma setenv_sel [simp]:
  "files (setenv n v w) = files w" "connections (setenv n v w) = connections w"
  "pyodbc (setenv n v w) = pyodbc w"
  by (simp_all add: setenv_def)

lemma frame_read_ini: "frame w (snd (read_ini p w))"
  by (simp add: read_ini_def frame_say frame_refl split: prod.splits sum.splits)

lemma frame_show_dsn_details: "frame w (snd (show_dsn_details self dsn_name w))"
  by (auto simp: show_dsn_details_def Let_def read_ini_def frame_def say_def
      split: prod.splits option.splits sum.splits)

lemma path_exists_accessible: "accessible fs \<Longrightarrow> \<exists>found. path_exists fs p = Inr found"
  by (cases "fs p") (auto simp: path_exists_def accessible_def)

lemma file_present_accessible:
  assumes "accessible fs"
  shows "\<exists>found. file_present fs p = Inr found"
proof (cases p)
  case None
  then show ?thesis by (auto simp: file_present_def)
next
  case (Some q)
  from path_exists_accessible [OF assms, of q] obtain found
    where "path_exists fs q = Inr found" by blast
  with Some show ?thesis by (auto simp: file_present_def)
qed

lemma read_ini_file_accessible:
  assumes "accessible fs"
  shows "\<exists>r. read_ini_file fs p = Inr r"
proof (cases p)
  case None
  then show ?thesis by (simp add: read_ini_file_def)
next
  case (Some q)
  from path_exists_accessible [OF assms, of q] obtain found
    where "path_exists fs q = Inr found" by blast
  with Some show ?thesis by (simp add: read_ini_file_def)
qed

lemma read_ini_accessible:
  assumes "accessible (files w)"
  shows "\<exists>r. fst (read_ini p w) = Inr r"
proof -
  from read_ini_file_accessible [OF assms, of p] obtain d warnings
    where "read_ini_file (files w) p = Inr (d, warnings)" by fastforce
  then show ?thesis by (simp add: read_ini_def)
qed

lemma first_existing_accessible: "accessible fs \<Longrightarrow> \<exists>r. first_existing fs ls = Inr r"
proof (induction ls)
  case Nil
  then show ?case by simp
next
  case (Cons l ls)
  from path_exists_accessible [OF Cons.prems, of l] obtain found
    where "path_exists fs l = Inr found" by blast
  with Cons show ?case by simp
qed

lemma frame_set_environment: "frame w (snd (set_environment m self display w))"
  by (auto simp: set_environment_def Let_def frame_def split: sum.splits)

lemma set_environment_accessible:
  assumes "accessible (files w)"
  shows "\<exists>r. fst (set_environment m self display w) = Inr r"
proof -
  let ?w = "if truthy (odbcini self)
       then setenv ''ODBCINI'' (str_opt (odbcini self))
              (say [Text (''Debug: '' @ manager_name m @ '' connection string: '' @ display)] w)
       else say [Text (''Debug: '' @ manager_name m @ '' connection string: '' @ display)] w"
  have "accessible (files ?w)" using assms by simp
  from first_existing_accessible [OF this, of "common_locations ?w"] obtain l
    where "first_existing (files ?w) (common_locations ?w) = Inr l" by blast
  then have "\<exists>r. find_odbcinst_path self ?w = Inr r"
    by (cases l) (simp_all add: find_odbcinst_path_def)
  then obtain r where "find_odbcinst_path self ?w = Inr r" by blast
  then show ?thesis
    unfolding set_environment_def Let_def by simp
qed

lemma frame_correct_driver:
  "frame w (snd (correct_driver dsn_name username password odbcinst_path driver_setting strs w))"
  by (auto simp: correct_driver_def Let_def read_ini_def frame_def say_def
      split: prod.splits option.splits sum.splits)

lemma correct_driver_same:
  assumes "strs = (conn_str dsn_name username password, display_conn_str dsn_name username password)"
    and "fst (correct_driver dsn_name username password odbcinst_path driver_setting strs w) = Inr r"
  shows "r = strs"
  using assms
  by (auto simp: correct_driver_def Let_def split: prod.splits option.splits sum.splits if_splits)

lemma correct_driver_accessible:
  assumes "accessible (files w)"
  shows "\<exists>r. fst (correct_driver dsn_name username password odbcinst_path driver_setting strs w)
           = Inr r"
  using read_ini_accessible [OF assms, of odbcinst_path]
  by (auto simp: correct_driver_def Let_def split: prod.splits option.splits sum.splits)

lemma correct_driver_sel:
  "files (snd (correct_driver dsn_name username password odbcinst_path driver_setting strs w))
     = files w"
  "connections (snd (correct_driver dsn_name username password odbcinst_path driver_setting strs w))
     = connections w"
  "pyodbc (snd (correct_driver dsn_name username password odbcinst_path driver_setting strs w))
     = pyodbc w"
  using frame_correct_driver [of w dsn_name username password odbcinst_path driver_setting strs]
  by (simp_all add: frame_def)

lemma frame_check_driver_setting:
  "frame w (snd (check_driver_setting self dsn_name username password odbcinst_path strs w))"
  by (auto simp: check_driver_setting_def Let_def read_ini_def frame_def correct_driver_sel
      split: prod.splits option.splits sum.splits)

lemma check_driver_setting_same:
  assumes "strs = (conn_str dsn_name username password, display_conn_str dsn_name username password)"
    and "fst (check_driver_setting self dsn_name username password odbcinst_path strs w) = Inr r"
  shows "r = strs"
  using assms(2) correct_driver_same [OF assms(1)]
  by (auto simp: check_driver_setting_def Let_def
      split: prod.splits option.splits sum.splits if_splits)

lemma check_driver_setting_accessible:
  assumes "accessible (files w)"
  shows "\<exists>r. fst (check_driver_setting self dsn_name username password odbcinst_path strs w)
           = Inr r"
proof -
  obtain r1 w1 where r: "read_ini (odbcini self) w = (r1, w1)"
    by (cases "read_ini (odbcini self) w")
  from frame_read_ini [of w "odbcini self"] r have f: "files w1 = files w"
    by (simp add: frame_def)
  from read_ini_accessible [OF assms, of "odbcini self"] r obtain d where d: "r1 = Inr d"
    by auto
  have a: "accessible (files (say ms w1))" for ms using assms f by simp
  show ?thesis
    using file_present_accessible [OF a, of _ odbcinst_path] correct_driver_accessible [OF a]
    by (auto simp: check_driver_setting_def Let_def r d split: option.splits sum.splits)
qed

lemma attempt_result:
  "fst (attempt m strs connect w) = succeeded (connect (length (connections w)) (fst strs))"
  "files (snd (attempt m strs connect w)) = files w"
  "pyodbc (snd (attempt m strs connect w)) = pyodbc w"
  "connections (snd (attempt m strs connect w)) = connections w @ [(m, fst strs)]"
  by (auto simp: attempt_def Let_def say_def succeeded_def split: connect_outcome.splits)

lemma report_exception_result:
  "fst (report_exception m display e w) = False"
  "files (snd (report_exception m display e w)) = files w"
  "pyodbc (snd (report_exception m display e w)) = pyodbc w"
  "connections (snd (report_exception m display e w)) = connections w"
  by (simp_all add: report_exception_def)

text \<open>
  The body of a tester ends in one of two ways: an exception was raised before the
  connection and is reported, which needs a path that cannot be examined; or the connection
  is attempted with the connection string built from the name and the credentials.
\<close>

lemma test_dsn_body_cases:
  fixes m self dsn_name username password connect w
  defines "strs \<equiv> (conn_str dsn_name username password, display_conn_str dsn_name username password)"
  shows "(\<exists>e w'. test_dsn_body m self dsn_name username password connect w
                    = report_exception m (snd strs) e w'
                  \<and> frame w w' \<and> \<not> accessible (files w))
       \<or> (\<exists>w'. test_dsn_body m self dsn_name username password connect w
                    = attempt m strs connect w'
               \<and> frame w w')"
proof -
  obtain r1 w1 where e: "set_environment m self (snd strs) w = (r1, w1)"
    by (cases "set_environment m self (snd strs) w")
  from frame_set_environment [of w m self "snd strs"] e have f1: "frame w w1" by simp
  show ?thesis
  proof (cases r1)
    case (Inl x)
    with e have "test_dsn_body m self dsn_name username password connect w
        = report_exception m (snd strs) x w1"
      by (simp add: test_dsn_body_def Let_def strs_def)
    moreover from set_environment_accessible [of w m self "snd strs"] e Inl
    have "\<not> accessible (files w)" by auto
    ultimately show ?thesis using f1 by blast
  next
    case (Inr odbcinst_path)
    obtain r2 w2 where c: "check_driver_setting self dsn_name username password
        odbcinst_path strs w1 = (r2, w2)"
      by (cases "check_driver_setting self dsn_name username password odbcinst_path strs w1")
    from frame_check_driver_setting [of w1 self dsn_name username password odbcinst_path strs] c
    have "frame w1 w2" by simp
    with f1 have f2: "frame w w2" by (rule frame_trans)
    show ?thesis
    proof (cases r2)
      case (Inl x)
      with e c Inr have "test_dsn_body m self dsn_name username password connect w
          = report_exception m (snd strs) x w2"
        by (simp add: test_dsn_body_def Let_def strs_def)
      moreover from check_driver_setting_accessible
          [of w1 self dsn_name username password odbcinst_path strs] c Inl f1
      have "\<not> accessible (files w)" by (auto simp: frame_def)
      ultimately show ?thesis using f2 by blast
    next
      case r: (Inr strs')
      from check_driver_setting_same
          [of strs dsn_name username password self odbcinst_path w1 strs'] c r
      have "strs' = strs" by (simp add: strs_def)
      with e c Inr r have "test_dsn_body m self dsn_name username password connect w
          = attempt m strs connect w2"
        by (simp add: test_dsn_body_def Let_def strs_def)
      with f2 show ?thesis by blast
    qed
  qed
qed

lemma test_dsn_body_sel:
  "files (snd (test_dsn_body m self dsn_name username password connect w)) = files w"
  "pyodbc (snd (test_dsn_body m self dsn_name username password connect w)) = pyodbc w"
  "connections (snd (test_dsn_body m self dsn_name username password connect w)) = connections w
   \<or> connections (snd (test_dsn_body m self dsn_name username password connect w))
       = connections w @ [(m, conn_str dsn_name username password)]"
  using test_dsn_body_cases [of m self dsn_name username password connect w]
  by (auto simp: attempt_result report_exception_result frame_def)

lemma test_dsn_body_accessible:
  assumes "accessible (files w)"
  shows "fst (test_dsn_body m self dsn_name username password connect w)
     = succeeded (connect (length (connections w)) (conn_str dsn_name username password))"
    and "connections (snd (test_dsn_body m self dsn_name username password connect w))
     = connections w @ [(m, conn_str dsn_name username password)]"
  using test_dsn_body_cases [of m self dsn_name username password connect w] assms
  by (auto simp: attempt_result frame_def)

text \<open>
  C8: a tester never changes a file. The connections it makes are none or one, and the one
  is made with the connection string built from the name of the data source and the
  credentials given. That holds whether or not the \<open>Driver\<close> value looks like a path and
  whether or not a driver with that library is found: the string is assigned again from
  the same parts. When every path can be examined, the connection is made if and only if
  \<open>pyodbc\<close> is there.
\<close>

theorem correction_is_advisory:
  "files (snd (test_dsn_unixodbc self dsn_name username password w)) = files w
   \<and> (connections (snd (test_dsn_unixodbc self dsn_name username password w)) = connections w
      \<or> connections (snd (test_dsn_unixodbc self dsn_name username password w))
          = connections w @ [(Unixodbc, conn_str dsn_name username password)])
   \<and> files (snd (test_dsn_iodbc self dsn_name username password w)) = files w
   \<and> (connections (snd (test_dsn_iodbc self dsn_name username password w)) = connections w
      \<or> connections (snd (test_dsn_iodbc self dsn_name username password w))
          = connections w @ [(Iodbc, conn_str dsn_name username password)])
   \<and> (accessible (files w) \<longrightarrow>
        connections (snd (test_dsn_unixodbc self dsn_name username password w))
          = connections w @ (case pyodbc w of None \<Rightarrow> []
                             | Some connect \<Rightarrow> [(Unixodbc, conn_str dsn_name username password)])
      \<and> connections (snd (test_dsn_iodbc self dsn_name username password w))
          = connections w @ (case pyodbc w of None \<Rightarrow> []
                             | Some connect \<Rightarrow> [(Iodbc, conn_str dsn_name username password)]))"
proof -
  let ?u = "say [Text ''Testing with unixODBC (standard ODBC)...''] w"
  let ?i = "say [Text ''Testing with iODBC (standard ODBC)...''] w"
  show ?thesis
  proof (cases "pyodbc w")
    case None
    then show ?thesis
      by (simp add: test_dsn_unixodbc_def test_dsn_iodbc_def Let_def)
  next
    case (Some connect)
    have u: "test_dsn_unixodbc self dsn_name username password w
        = (Inr (fst (test_dsn_body Unixodbc self dsn_name username password connect ?u)),
           snd (test_dsn_body Unixodbc self dsn_name username password connect ?u))"
      using Some by (simp add: test_dsn_unixodbc_def Let_def case_prod_beta)
    have i: "test_dsn_iodbc self dsn_name username password w
        = (Inr (fst (test_dsn_body Iodbc self dsn_name username password connect ?i)),
           snd (test_dsn_body Iodbc self dsn_name username password connect ?i))"
      using Some by (simp add: test_dsn_iodbc_def Let_def case_prod_beta)
    have au: "accessible (files w) \<Longrightarrow> accessible (files ?u)"
      and ai: "accessible (files w) \<Longrightarrow> accessible (files ?i)" by simp_all
    show ?thesis
      using test_dsn_body_sel(1,3) [of Unixodbc self dsn_name username password connect ?u]
        test_dsn_body_sel(1,3) [of Iodbc self dsn_name username password connect ?i]
        test_dsn_body_accessible(2) [OF au, of Unixodbc self dsn_name username password connect]
        test_dsn_body_accessible(2) [OF ai, of Iodbc self dsn_name username password connect]
      by (simp add: u i Some)
  qed
qed

text \<open>
  The data source Sales has the path of a library as its driver, and the driver file has a
  driver FooDriver with that library: the tester prints the name found and connects with
  \<open>DSN=Sales\<close>.
\<close>

theorem correction_is_advisory_witness:
  "accessible (files sales_world)
   \<and> files (snd (test_dsn_unixodbc sales_manager ''Sales'' None None sales_world)) = files sales_world
   \<and> Text ''Info: Found matching driver: FooDriver''
       \<in> set (stdout (snd (test_dsn_unixodbc sales_manager ''Sales'' None None sales_world)))
   \<and> connections (snd (test_dsn_unixodbc sales_manager ''Sales'' None None sales_world))
       = [(Unixodbc, ''DSN=Sales'')]
   \<and> connections (snd (test_dsn_iodbc sales_manager ''Sales'' None None sales_world))
       = [(Iodbc, ''DSN=Sales'')]"
proof -
  have x: "accessible (files sales_world)" by (simp add: accessible_def sales_world_def)
  have a: "Text ''Info: Found matching driver: FooDriver''
       \<in> set (stdout (snd (test_dsn_unixodbc sales_manager ''Sales'' None None sales_world)))"
    by code_simp
  have b: "connections (snd (test_dsn_unixodbc sales_manager ''Sales'' None None sales_world))
       = [(Unixodbc, ''DSN=Sales'')]" by code_simp
  have c: "connections (snd (test_dsn_iodbc sales_manager ''Sales'' None None sales_world))
       = [(Iodbc, ''DSN=Sales'')]" by code_simp
  from correction_is_advisory [of sales_manager "''Sales''" None None sales_world] x a b c
  show ?thesis by blast
qed

text \<open>
  C7, at an input where the testers miss the path: the data source Stock has its driver
  under the key \<open>DRIVER\<close>. \<open>list_dsns_grouped\<close> finds the value, and the tester, which looks for
  the key \<open>Driver\<close> as it is written, does not: no warning is printed for the path.
\<close>

theorem driver_key_case_missed:
  "read_ini_file (files sales_world) (odbcini sales_manager) =
     Inr ([(''Sales'', [(''Driver'', ''/usr/lib/foo.so''), (''UID'', ''dba''), (''Pwd'', ''s3cret'')]),
           (''Stock'', [(''DRIVER'', ''/usr/lib/foo.so'')])], [])
   \<and> dict_get [(''Sales'', [(''Driver'', ''/usr/lib/foo.so''), (''UID'', ''dba''), (''Pwd'', ''s3cret'')]),
                (''Stock'', [(''DRIVER'', ''/usr/lib/foo.so'')])] ''Stock''
     = Some [(''DRIVER'', ''/usr/lib/foo.so'')]
   \<and> fst (list_dsns_grouped sales_manager sales_world) = Inr [''Sales'', ''Stock'']
   \<and> find_driver ''unknown'' [(''DRIVER'', ''/usr/lib/foo.so'')] = ''/usr/lib/foo.so''
   \<and> looks_like_path ''/usr/lib/foo.so''
   \<and> driver_setting_of [(''DRIVER'', ''/usr/lib/foo.so'')] = []
   \<and> stdout (snd (test_dsn_iodbc sales_manager ''Stock'' None None sales_world))
     = [Text ''Testing with iODBC (standard ODBC)...'',
        Text ''Debug: iODBC connection string: DSN=Stock'',
        Text ''Debug: Set ODBCINST to odbcinst.ini'',
        Text (''Debug: Attempting connection with: pyodbc.connect('' @ quoted ''DSN=Stock'' @ '')''),
        Cross ''iODBC connection failed'',
        Text ''Connection string used: DSN=Stock''] @ tips"
  by code_simp

section \<open>Properties of \<open>test_dsn\<close>\<close>

text \<open>
  The world in which the first tester starts, after the details of the data source, the
  menu of the credentials and the heading; and the world \<open>test_dsn\<close> leaves, after the rule
  and the verdict.
\<close>

definition test_start :: "string \<Rightarrow> world \<Rightarrow> world" where
  "test_start dsn_name w =
     say [Text [], Text (''Testing DSN: '' @ dsn_name), Rule]
       (say [Text ''Connection credentials:'',
             Text ''  1) Use credentials from DSN configuration'',
             Text ''  2) Enter custom credentials for this test''] w)"

definition test_verdict :: "string \<Rightarrow> bool \<Rightarrow> world \<Rightarrow> world" where
  "test_verdict dsn_name success w =
     say [if success then Check (''DSN '' @ quoted dsn_name @ '' is working'')
          else Cross (''DSN '' @ quoted dsn_name @ '' failed connection tests'')]
       (say [Rule] w)"

text \<open>
  A world with \<open>pyodbc\<close> whose file of data sources has the one section \<open>Empty\<close>, with no
  key in it.
\<close>

definition bare_world :: world where
  "bare_world = \<lparr>files = (\<lambda>p. if p = ''odbc.ini'' then Content ''[Empty]\<newline>'' else Absent),
     environ = (\<lambda>n. None), home = ''/home/u'', stdout = [], connections = [],
     pyodbc = Some (\<lambda>n s. Query_result (Some ''Connection OK''))\<rparr>"

lemma show_dsn_details_sel [simp]:
  "files (snd (show_dsn_details self dsn_name w)) = files w"
  "connections (snd (show_dsn_details self dsn_name w)) = connections w"
  "pyodbc (snd (show_dsn_details self dsn_name w)) = pyodbc w"
  using frame_show_dsn_details [of w self dsn_name] by (simp_all add: frame_def)

lemma show_dsn_details_found:
  assumes "file_present (files w) (odbcini self) = Inr True"
    and "read_ini_file (files w) (odbcini self) = Inr (store, warnings)"
  shows "fst (show_dsn_details self dsn_name w) = Inr (dict_get store dsn_name)"
  using assms
  by (simp add: show_dsn_details_def Let_def read_ini_def split: option.splits)

lemma tester_returns:
  assumes "pyodbc w = Some connect"
  shows "\<exists>r w'. test_dsn_unixodbc self dsn_name username password w = (Inr r, w')
           \<and> pyodbc w' = Some connect \<and> files w' = files w"
    and "\<exists>r w'. test_dsn_iodbc self dsn_name username password w = (Inr r, w')
           \<and> pyodbc w' = Some connect \<and> files w' = files w"
  using assms
  by (simp_all add: test_dsn_unixodbc_def test_dsn_iodbc_def Let_def case_prod_beta
      test_dsn_body_sel)

lemma tester_installed:
  assumes "pyodbc w = Some connect" "accessible (files w)"
  shows "\<exists>w'. test_dsn_unixodbc self dsn_name username password w =
           (Inr (succeeded (connect (length (connections w)) (conn_str dsn_name username password))), w')
           \<and> pyodbc w' = Some connect \<and> files w' = files w
           \<and> connections w' = connections w @ [(Unixodbc, conn_str dsn_name username password)]"
    and "\<exists>w'. test_dsn_iodbc self dsn_name username password w =
           (Inr (succeeded (connect (length (connections w)) (conn_str dsn_name username password))), w')
           \<and> pyodbc w' = Some connect \<and> files w' = files w
           \<and> connections w' = connections w @ [(Iodbc, conn_str dsn_name username password)]"
proof -
  have a: "accessible (files (say ms w))" for ms using assms(2) by simp
  show "\<exists>w'. test_dsn_unixodbc self dsn_name username password w =
           (Inr (succeeded (connect (length (connections w)) (conn_str dsn_name username password))), w')
           \<and> pyodbc w' = Some connect \<and> files w' = files w
           \<and> connections w' = connections w @ [(Unixodbc, conn_str dsn_name username password)]"
    using assms(1) test_dsn_body_accessible [OF a, of Unixodbc self dsn_name username password connect]
    by (simp add: test_dsn_unixodbc_def Let_def case_prod_beta test_dsn_body_sel)
  show "\<exists>w'. test_dsn_iodbc self dsn_name username password w =
           (Inr (succeeded (connect (length (connections w)) (conn_str dsn_name username password))), w')
           \<and> pyodbc w' = Some connect \<and> files w' = files w
           \<and> connections w' = connections w @ [(Iodbc, conn_str dsn_name username password)]"
    using assms(1) test_dsn_body_accessible [OF a, of Iodbc self dsn_name username password connect]
    by (simp add: test_dsn_iodbc_def Let_def case_prod_beta test_dsn_body_sel)
qed

lemma test_dsn_guard:
  assumes "fst (show_dsn_details self dsn_name w) = Inr None
           \<or> fst (show_dsn_details self dsn_name w) = Inr (Some [])"
  shows "test_dsn self dsn_name mgr t w =
           (Inr None, say [Text ''DSN not found or invalid''] (snd (show_dsn_details self dsn_name w)))"
proof -
  obtain r ws where sd: "show_dsn_details self dsn_name w = (r, ws)"
    by (cases "show_dsn_details self dsn_name w")
  with assms show ?thesis
    by (auto simp: test_dsn_def)
qed

lemma test_dsn_testers:
  assumes "fst (show_dsn_details self dsn_name w) = Inr (Some dsn_config)" "dsn_config \<noteq> []"
    and "pyodbc w = Some connect"
  shows "\<exists>ru wu ri wi.
      test_dsn_unixodbc self dsn_name (fst (credentials t)) (snd (credentials t))
        (test_start dsn_name (snd (show_dsn_details self dsn_name w))) = (Inr ru, wu)
    \<and> test_dsn_iodbc self dsn_name (fst (credentials t)) (snd (credentials t))
        (if has_unixodbc self then say [Text []] wu
         else test_start dsn_name (snd (show_dsn_details self dsn_name w))) = (Inr ri, wi)
    \<and> test_dsn self dsn_name None t w =
        (Inr (Some (has_unixodbc self \<and> ru \<or> has_iodbc self \<and> ri)),
         test_verdict dsn_name (has_unixodbc self \<and> ru \<or> has_iodbc self \<and> ri)
           (if has_iodbc self then wi
            else if has_unixodbc self then say [Text []] wu
            else test_start dsn_name (snd (show_dsn_details self dsn_name w))))"
proof -
  let ?u = "fst (credentials t)" and ?p = "snd (credentials t)"
  obtain ws where sd: "show_dsn_details self dsn_name w = (Inr (Some dsn_config), ws)"
    using assms(1) by (cases "show_dsn_details self dsn_name w") simp
  have ws: "pyodbc ws = Some connect"
    using show_dsn_details_sel(3) [of self dsn_name w] assms(3) by (simp add: sd)
  let ?w0 = "test_start dsn_name ws"
  have p0: "pyodbc ?w0 = Some connect" using ws by (simp add: test_start_def)
  from tester_returns(1) [OF p0, of self dsn_name ?u ?p] obtain ru wu where
    U: "test_dsn_unixodbc self dsn_name ?u ?p ?w0 = (Inr ru, wu)" "pyodbc wu = Some connect"
    by blast
  let ?w1 = "if has_unixodbc self then say [Text []] wu else ?w0"
  have p1: "pyodbc ?w1 = Some connect" using U(2) p0 by simp
  from tester_returns(2) [OF p1, of self dsn_name ?u ?p] obtain ri wi where
    I: "test_dsn_iodbc self dsn_name ?u ?p ?w1 = (Inr ri, wi)"
    by blast
  have "test_dsn self dsn_name None t w =
        (Inr (Some (has_unixodbc self \<and> ru \<or> has_iodbc self \<and> ri)),
         test_verdict dsn_name (has_unixodbc self \<and> ru \<or> has_iodbc self \<and> ri)
           (if has_iodbc self then wi else ?w1))"
    using assms(2) U(1) [unfolded test_start_def] I [unfolded test_start_def]
    by (cases "has_unixodbc self"; cases "has_iodbc self")
      (auto simp: test_dsn_def Let_def sd test_verdict_def test_start_def)
  moreover have "snd (show_dsn_details self dsn_name w) = ws" by (simp add: sd)
  ultimately show ?thesis
    using U(1) I by (simp only:) blast
qed

lemma test_dsn_connections:
  assumes "fst (show_dsn_details self dsn_name w) = Inr (Some dsn_config)" "dsn_config \<noteq> []"
    and "pyodbc w = Some connect" "accessible (files w)"
  shows "connections (snd (test_dsn self dsn_name None t w)) =
           connections w @
             map (\<lambda>m. (m, conn_str dsn_name (fst (credentials t)) (snd (credentials t))))
               (filter (available self) [Unixodbc, Iodbc])
    \<and> fst (test_dsn self dsn_name None t w) =
          Inr (Some (\<exists>i < length (filter (available self) [Unixodbc, Iodbc]).
                 succeeded (connect (length (connections w) + i)
                   (conn_str dsn_name (fst (credentials t)) (snd (credentials t))))))"
proof -
  let ?u = "fst (credentials t)" and ?p = "snd (credentials t)"
  let ?cs = "conn_str dsn_name ?u ?p"
  obtain ws where sd: "show_dsn_details self dsn_name w = (Inr (Some dsn_config), ws)"
    using assms(1) by (cases "show_dsn_details self dsn_name w") simp
  have ws: "pyodbc ws = Some connect" "connections ws = connections w" "files ws = files w"
    using show_dsn_details_sel [of self dsn_name w] assms(3) by (simp_all add: sd)
  let ?w0 = "say [Text [], Text (''Testing DSN: '' @ dsn_name), Rule]
     (say [Text ''Connection credentials:'', Text ''  1) Use credentials from DSN configuration'',
           Text ''  2) Enter custom credentials for this test''] ws)"
  have p0: "pyodbc ?w0 = Some connect" and c0: "connections ?w0 = connections w"
    and a0: "accessible (files ?w0)"
    using ws assms(4) by simp_all
  from tester_installed(1) [OF p0 a0, of self dsn_name ?u ?p] obtain wu where
    U: "test_dsn_unixodbc self dsn_name ?u ?p ?w0
          = (Inr (succeeded (connect (length (connections w)) ?cs)), wu)"
      "pyodbc wu = Some connect" "connections wu = connections w @ [(Unixodbc, ?cs)]"
      "files wu = files w"
    unfolding c0 using ws(3) by auto
  from tester_installed(2) [OF p0 a0, of self dsn_name ?u ?p] obtain wi where
    I: "test_dsn_iodbc self dsn_name ?u ?p ?w0
          = (Inr (succeeded (connect (length (connections w)) ?cs)), wi)"
      "connections wi = connections w @ [(Iodbc, ?cs)]"
    unfolding c0 by blast
  have p1: "pyodbc (say [Text []] wu) = Some connect"
    and a1: "accessible (files (say [Text []] wu))" using U(2,4) assms(4) by simp_all
  from tester_installed(2) [OF p1 a1, of self dsn_name ?u ?p] obtain wj where
    J: "test_dsn_iodbc self dsn_name ?u ?p (say [Text []] wu)
          = (Inr (succeeded (connect (Suc (length (connections w))) ?cs)), wj)"
      "connections wj = connections w @ [(Unixodbc, ?cs), (Iodbc, ?cs)]"
    by (auto simp: U(3))
  show ?thesis
    using assms(2)
    by (cases "has_unixodbc self"; cases "has_iodbc self")
      (simp_all add: test_dsn_def Let_def sd U(1) [simplified] U(3) ws(2) I [simplified]
        J [simplified] available_def Ex_less_Suc)
qed

text \<open>
  C2, as the code has it. \<open>test_dsn\<close> begins with \<open>show_dsn_details\<close>, which gives the section
  of the data source in the file. When that gives nothing, or a section with no key,
  \<open>test_dsn\<close> prints one line and returns: no tester is run and no connection is made,
  whatever the manager asked for. When it gives a section that is not empty, \<open>pyodbc\<close> is
  installed and \<open>test_dsn\<close> is called for both managers, the tester of every manager that is
  available is run, unixODBC before iODBC, the second in the world the first has left,
  whatever the first has returned; the verdict is that some tester returned \<open>True\<close>. When
  moreover every path can be examined, the connections made are one for each available
  manager, in that order, and the verdict is that some connection succeeded.
\<close>

theorem test_dsn_all_backends:
  "(file_present (files w) (odbcini self) = Inr True
      \<and> read_ini_file (files w) (odbcini self) = Inr (store, warnings)
      \<longrightarrow> fst (show_dsn_details self dsn_name w) = Inr (dict_get store dsn_name))
   \<and> (fst (show_dsn_details self dsn_name w) = Inr None
      \<or> fst (show_dsn_details self dsn_name w) = Inr (Some [])
      \<longrightarrow> test_dsn self dsn_name mgr t w =
            (Inr None,
             say [Text ''DSN not found or invalid''] (snd (show_dsn_details self dsn_name w)))
          \<and> connections (snd (test_dsn self dsn_name mgr t w)) = connections w)
   \<and> (fst (show_dsn_details self dsn_name w) = Inr (Some dsn_config) \<and> dsn_config \<noteq> []
      \<and> pyodbc w = Some connect
      \<longrightarrow> (\<exists>ru wu ri wi.
             test_dsn_unixodbc self dsn_name (fst (credentials t)) (snd (credentials t))
               (test_start dsn_name (snd (show_dsn_details self dsn_name w))) = (Inr ru, wu)
           \<and> test_dsn_iodbc self dsn_name (fst (credentials t)) (snd (credentials t))
               (if has_unixodbc self then say [Text []] wu
                else test_start dsn_name (snd (show_dsn_details self dsn_name w))) = (Inr ri, wi)
           \<and> test_dsn self dsn_name None t w =
               (Inr (Some (has_unixodbc self \<and> ru \<or> has_iodbc self \<and> ri)),
                test_verdict dsn_name (has_unixodbc self \<and> ru \<or> has_iodbc self \<and> ri)
                  (if has_iodbc self then wi
                   else if has_unixodbc self then say [Text []] wu
                   else test_start dsn_name (snd (show_dsn_details self dsn_name w))))))
   \<and> (fst (show_dsn_details self dsn_name w) = Inr (Some dsn_config) \<and> dsn_config \<noteq> []
      \<and> pyodbc w = Some connect \<and> accessible (files w)
      \<longrightarrow> connections (snd (test_dsn self dsn_name None t w)) =
            connections w @
              map (\<lambda>m. (m, conn_str dsn_name (fst (credentials t)) (snd (credentials t))))
                (filter (available self) [Unixodbc, Iodbc])
          \<and> fst (test_dsn self dsn_name None t w) =
              Inr (Some (\<exists>i < length (filter (available self) [Unixodbc, Iodbc]).
                     succeeded (connect (length (connections w) + i)
                       (conn_str dsn_name (fst (credentials t)) (snd (credentials t)))))))"
proof (intro conjI impI)
  assume "file_present (files w) (odbcini self) = Inr True
      \<and> read_ini_file (files w) (odbcini self) = Inr (store, warnings)"
  then show "fst (show_dsn_details self dsn_name w) = Inr (dict_get store dsn_name)"
    using show_dsn_details_found by blast
next
  assume g: "fst (show_dsn_details self dsn_name w) = Inr None
      \<or> fst (show_dsn_details self dsn_name w) = Inr (Some [])"
  then show e: "test_dsn self dsn_name mgr t w =
            (Inr None,
             say [Text ''DSN not found or invalid''] (snd (show_dsn_details self dsn_name w)))"
    by (rule test_dsn_guard)
  show "connections (snd (test_dsn self dsn_name mgr t w)) = connections w"
    by (simp add: e)
next
  assume "fst (show_dsn_details self dsn_name w) = Inr (Some dsn_config) \<and> dsn_config \<noteq> []
      \<and> pyodbc w = Some connect"
  then show "\<exists>ru wu ri wi.
             test_dsn_unixodbc self dsn_name (fst (credentials t)) (snd (credentials t))
               (test_start dsn_name (snd (show_dsn_details self dsn_name w))) = (Inr ru, wu)
           \<and> test_dsn_iodbc self dsn_name (fst (credentials t)) (snd (credentials t))
               (if has_unixodbc self then say [Text []] wu
                else test_start dsn_name (snd (show_dsn_details self dsn_name w))) = (Inr ri, wi)
           \<and> test_dsn self dsn_name None t w =
               (Inr (Some (has_unixodbc self \<and> ru \<or> has_iodbc self \<and> ri)),
                test_verdict dsn_name (has_unixodbc self \<and> ru \<or> has_iodbc self \<and> ri)
                  (if has_iodbc self then wi
                   else if has_unixodbc self then say [Text []] wu
                   else test_start dsn_name (snd (show_dsn_details self dsn_name w))))"
    using test_dsn_testers [of self dsn_name w dsn_config connect t] by blast
next
  assume a: "fst (show_dsn_details self dsn_name w) = Inr (Some dsn_config) \<and> dsn_config \<noteq> []
      \<and> pyodbc w = Some connect \<and> accessible (files w)"
  from a test_dsn_connections [of self dsn_name w dsn_config connect t]
  show "connections (snd (test_dsn self dsn_name None t w)) =
            connections w @
              map (\<lambda>m. (m, conn_str dsn_name (fst (credentials t)) (snd (credentials t))))
                (filter (available self) [Unixodbc, Iodbc])"
    by blast
  from a test_dsn_connections [of self dsn_name w dsn_config connect t]
  show "fst (test_dsn self dsn_name None t w) =
              Inr (Some (\<exists>i < length (filter (available self) [Unixodbc, Iodbc]).
                     succeeded (connect (length (connections w) + i)
                       (conn_str dsn_name (fst (credentials t)) (snd (credentials t))))))"
    by blast
qed

text \<open>
  For the data source Sales the first connection fails and the second succeeds. The data
  source Nope is not in the file, and the section of the data source Empty has no key.
\<close>

theorem test_dsn_all_backends_witness:
  "fst (show_dsn_details sales_manager ''Sales'' sales_world)
     = Inr (Some [(''Driver'', ''/usr/lib/foo.so''), (''UID'', ''dba''), (''Pwd'', ''s3cret'')])
   \<and> accessible (files sales_world)
   \<and> connections (snd (test_dsn sales_manager ''Sales'' None
         \<lparr>typed_choice = [], typed_username = [], typed_password = []\<rparr> sales_world))
       = [(Unixodbc, ''DSN=Sales''), (Iodbc, ''DSN=Sales'')]
   \<and> fst (test_dsn sales_manager ''Sales'' None
         \<lparr>typed_choice = [], typed_username = [], typed_password = []\<rparr> sales_world)
       = Inr (Some True)
   \<and> (\<exists>wu wi.
        test_dsn_unixodbc sales_manager ''Sales'' None None
          (test_start ''Sales'' (snd (show_dsn_details sales_manager ''Sales'' sales_world)))
          = (Inr False, wu)
      \<and> test_dsn_iodbc sales_manager ''Sales'' None None (say [Text []] wu) = (Inr True, wi)
      \<and> snd (test_dsn sales_manager ''Sales'' None
           \<lparr>typed_choice = [], typed_username = [], typed_password = []\<rparr> sales_world)
          = test_verdict ''Sales'' True wi)
   \<and> fst (show_dsn_details sales_manager ''Nope'' sales_world) = Inr None
   \<and> test_dsn sales_manager ''Nope'' None
         \<lparr>typed_choice = [], typed_username = [], typed_password = []\<rparr> sales_world
       = (Inr None, say [Text ''DSN not found or invalid'']
            (snd (show_dsn_details sales_manager ''Nope'' sales_world)))
   \<and> file_present (files bare_world) (odbcini sales_manager) = Inr True
   \<and> read_ini_file (files bare_world) (odbcini sales_manager) = Inr ([(''Empty'', [])], [])
   \<and> fst (show_dsn_details sales_manager ''Empty'' bare_world) = Inr (Some [])
   \<and> test_dsn sales_manager ''Empty'' None
         \<lparr>typed_choice = [], typed_username = [], typed_password = []\<rparr> bare_world
       = (Inr None, say [Text ''DSN not found or invalid'']
            (snd (show_dsn_details sales_manager ''Empty'' bare_world)))
   \<and> connections (snd (test_dsn sales_manager ''Empty'' None
         \<lparr>typed_choice = [], typed_username = [], typed_password = []\<rparr> bare_world)) = []"
proof -
  let ?t = "\<lparr>typed_choice = [], typed_username = [], typed_password = []\<rparr>"
  let ?s = "[(''Driver'', ''/usr/lib/foo.so''), (''UID'', ''dba''), (''Pwd'', ''s3cret'')]"
  let ?c = "\<lambda>n s. if n = (0::nat) then Pyodbc_error ''IM002'' else Query_result (Some ''Connection OK'')"
  have a: "fst (show_dsn_details sales_manager ''Sales'' sales_world) = Inr (Some ?s)"
    by code_simp
  have b: "?s \<noteq> []" by simp
  have p: "pyodbc sales_world = Some ?c"
    by (simp add: sales_world_def)
  have x: "accessible (files sales_world)" by (simp add: accessible_def sales_world_def)
  have c: "connections sales_world = []" by (simp add: sales_world_def)
  have f: "available sales_manager Unixodbc" "available sales_manager Iodbc" by code_simp+
  have h: "has_unixodbc sales_manager = True" "has_iodbc sales_manager = True"
    by (simp_all add: sales_manager_def)
  have s: "conn_str ''Sales'' (fst (credentials ?t)) (snd (credentials ?t)) = ''DSN=Sales''"
    by code_simp
  have cr: "fst (credentials ?t) = None" "snd (credentials ?t) = None" by code_simp+
  have n: "fst (show_dsn_details sales_manager ''Nope'' sales_world) = Inr None" by code_simp
  have fp: "file_present (files bare_world) (odbcini sales_manager) = Inr True" by code_simp
  have rd: "read_ini_file (files bare_world) (odbcini sales_manager) = Inr ([(''Empty'', [])], [])"
    by code_simp
  have cb: "connections bare_world = []" by (simp add: bare_world_def)
  note sales = test_dsn_all_backends [of sales_world sales_manager _ _ "''Sales''" _ ?t ?s ?c]
  note nope = test_dsn_all_backends [of sales_world sales_manager _ _ "''Nope''" None ?t]
  note empty = test_dsn_all_backends [of bare_world sales_manager "[(''Empty'', [])]" "[]"
      "''Empty''" None ?t]
  from sales a b p x have 1:
    "connections (snd (test_dsn sales_manager ''Sales'' None ?t sales_world))
       = [(Unixodbc, ''DSN=Sales''), (Iodbc, ''DSN=Sales'')]"
    "fst (test_dsn sales_manager ''Sales'' None ?t sales_world) = Inr (Some True)"
    by (simp_all add: c f s succeeded_def Ex_less_Suc)
  let ?w0 = "test_start ''Sales'' (snd (show_dsn_details sales_manager ''Sales'' sales_world))"
  from sales a b p have "\<exists>ru wu ri wi.
      test_dsn_unixodbc sales_manager ''Sales'' (fst (credentials ?t)) (snd (credentials ?t)) ?w0
        = (Inr ru, wu)
    \<and> test_dsn_iodbc sales_manager ''Sales'' (fst (credentials ?t)) (snd (credentials ?t))
        (if has_unixodbc sales_manager then say [Text []] wu else ?w0) = (Inr ri, wi)
    \<and> test_dsn sales_manager ''Sales'' None ?t sales_world =
        (Inr (Some (has_unixodbc sales_manager \<and> ru \<or> has_iodbc sales_manager \<and> ri)),
         test_verdict ''Sales'' (has_unixodbc sales_manager \<and> ru \<or> has_iodbc sales_manager \<and> ri)
           (if has_iodbc sales_manager then wi
            else if has_unixodbc sales_manager then say [Text []] wu else ?w0))"
    by blast
  then obtain ru wu ri wi where t:
    "test_dsn_unixodbc sales_manager ''Sales'' None None ?w0 = (Inr ru, wu)"
    "test_dsn_iodbc sales_manager ''Sales'' None None (say [Text []] wu) = (Inr ri, wi)"
    "test_dsn sales_manager ''Sales'' None ?t sales_world
       = (Inr (Some (ru \<or> ri)), test_verdict ''Sales'' (ru \<or> ri) wi)"
    unfolding cr h if_True simp_thms by blast
  have ru: "fst (test_dsn_unixodbc sales_manager ''Sales'' None None
       (test_start ''Sales'' (snd (show_dsn_details sales_manager ''Sales'' sales_world))))
       = Inr False"
    by code_simp
  with t(1) have "\<not> ru" by simp
  moreover from 1(2) t(3) have "ru \<or> ri" by simp
  ultimately have 2: "\<exists>wu wi.
        test_dsn_unixodbc sales_manager ''Sales'' None None
          (test_start ''Sales'' (snd (show_dsn_details sales_manager ''Sales'' sales_world)))
          = (Inr False, wu)
      \<and> test_dsn_iodbc sales_manager ''Sales'' None None (say [Text []] wu) = (Inr True, wi)
      \<and> snd (test_dsn sales_manager ''Sales'' None ?t sales_world)
          = test_verdict ''Sales'' True wi"
    using t by (intro exI [of _ wu] exI [of _ wi]) simp
  from nope n have 3: "test_dsn sales_manager ''Nope'' None ?t sales_world
       = (Inr None, say [Text ''DSN not found or invalid'']
            (snd (show_dsn_details sales_manager ''Nope'' sales_world)))"
    by blast
  from empty fp rd have 4: "fst (show_dsn_details sales_manager ''Empty'' bare_world) = Inr (Some [])"
    by (simp add: dict_get_def)
  with empty have 5: "test_dsn sales_manager ''Empty'' None ?t bare_world
       = (Inr None, say [Text ''DSN not found or invalid'']
            (snd (show_dsn_details sales_manager ''Empty'' bare_world)))"
    and 6: "connections (snd (test_dsn sales_manager ''Empty'' None ?t bare_world)) = connections bare_world"
    by blast+
  from a x 1 2 n 3 fp rd 4 5 6 cb show ?thesis by simp
qed

text \<open>
  A data source that is not in the file is not tested: \<open>test_dsn\<close> returns before any
  attempt, for both managers too.
\<close>

theorem test_dsn_absent_counterexample:
  "fst (test_dsn sales_manager ''Nope'' None
      \<lparr>typed_choice = [], typed_username = [], typed_password = []\<rparr> sales_world) = Inr None
   \<and> connections (snd (test_dsn sales_manager ''Nope'' None
      \<lparr>typed_choice = [], typed_username = [], typed_password = []\<rparr> sales_world)) = []
   \<and> stdout (snd (test_dsn sales_manager ''Nope'' None
      \<lparr>typed_choice = [], typed_username = [], typed_password = []\<rparr> sales_world))
     = [Text [], Text ''DSN: Nope'', Rule, Text ''DSN not found'', Text ''DSN not found or invalid'']"
  by code_simp


text \<open>
  Without \<open>pyodbc\<close> the test for both managers ends in the first tester: the exception
  leaves \<open>test_dsn\<close> and the second tester is not run.
\<close>

lemma test_dsn_without_pyodbc:
  "fst (test_dsn sales_manager ''Sales'' None
      \<lparr>typed_choice = [], typed_username = [], typed_password = []\<rparr>
      (sales_world\<lparr>pyodbc := None\<rparr>)) = Inl (UnboundLocalError ''pyodbc'')
   \<and> last (stdout (snd (test_dsn sales_manager ''Sales'' None
      \<lparr>typed_choice = [], typed_username = [], typed_password = []\<rparr>
      (sales_world\<lparr>pyodbc := None\<rparr>)))) = Text ''Testing with unixODBC (standard ODBC)...''"
  by code_simp

text \<open>
  A path that cannot be examined: the driver file of the manager is such a path. The
  tester reads the data source, finds the path of a library as its driver, and
  \<open>exists()\<close> raises on the driver file: the last handler reports it and no connection is
  made.
\<close>

lemma tester_unreachable:
  "connections (snd (test_dsn_unixodbc (sales_manager\<lparr>odbcinst := Some ''/private/odbcinst.ini''\<rparr>)
       ''Sales'' None None
       (sales_world\<lparr>files := (files sales_world)
          (''/private/odbcinst.ini'' := Unreachable ''Permission denied'')\<rparr>))) = []
   \<and> fst (test_dsn_unixodbc (sales_manager\<lparr>odbcinst := Some ''/private/odbcinst.ini''\<rparr>)
       ''Sales'' None None
       (sales_world\<lparr>files := (files sales_world)
          (''/private/odbcinst.ini'' := Unreachable ''Permission denied'')\<rparr>)) = Inr False
   \<and> last (stdout (snd (test_dsn_unixodbc (sales_manager\<lparr>odbcinst := Some ''/private/odbcinst.ini''\<rparr>)
       ''Sales'' None None
       (sales_world\<lparr>files := (files sales_world)
          (''/private/odbcinst.ini'' := Unreachable ''Permission denied'')\<rparr>))))
       = Text ''Connection string used: DSN=Sales''"
  by code_simp

section \<open>Writing a dictionary and reading it back\<close>

text \<open>
  What holds of every string of a dictionary that was read: it has no line break in it
  (\<open>clean\<close>) and no white space at either end (\<open>stripped\<close>).
\<close>

definition clean :: "string \<Rightarrow> bool" where
  "clean s = (CHR 0x0A \<notin> set s \<and> CHR 0x0D \<notin> set s)"

definition stripped :: "string \<Rightarrow> bool" where
  "stripped s = (s = [] \<or> (\<not> is_space (hd s) \<and> \<not> is_space (last s)))"

lemma dropWhile_all: "\<forall>c\<in>set a. P c \<Longrightarrow> dropWhile P (a @ b) = dropWhile P b"
  by (induction a) auto

lemma rstrip_prefix: "\<exists>w. s = rstrip s @ w \<and> (\<forall>c\<in>set w. is_space c)"
proof -
  have "rev (dropWhile is_space (rev s)) @ rev (takeWhile is_space (rev s))
      = rev (takeWhile is_space (rev s) @ dropWhile is_space (rev s))"
    by (simp only: rev_append)
  also have "\<dots> = s"
    by (simp only: takeWhile_dropWhile_id rev_rev_ident)
  finally have "s = rstrip s @ rev (takeWhile is_space (rev s))"
    by (simp only: rstrip_def)
  moreover have "\<forall>c\<in>set (rev (takeWhile is_space (rev s))). is_space c"
    by (auto dest: set_takeWhileD)
  ultimately show ?thesis by blast
qed

lemma rstrip_last: "rstrip s \<noteq> [] \<Longrightarrow> \<not> is_space (last (rstrip s))"
proof -
  assume "rstrip s \<noteq> []"
  then have n: "dropWhile is_space (rev s) \<noteq> []" by (simp add: rstrip_def)
  then have "\<not> is_space (hd (dropWhile is_space (rev s)))" by (rule hd_dropWhile)
  with n show ?thesis by (simp add: rstrip_def last_rev)
qed

lemma lstrip_hd: "lstrip s \<noteq> [] \<Longrightarrow> \<not> is_space (hd (lstrip s))"
  unfolding lstrip_def by (rule hd_dropWhile)

lemma rstrip_id: "s = [] \<or> \<not> is_space (last s) \<Longrightarrow> rstrip s = s"
  by (cases s rule: rev_cases) (auto simp: rstrip_def)

lemma lstrip_id: "s = [] \<or> \<not> is_space (hd s) \<Longrightarrow> lstrip s = s"
  by (cases s) (auto simp: lstrip_def)

lemma rstrip_hd: "rstrip s \<noteq> [] \<Longrightarrow> hd (rstrip s) = hd s"
proof -
  assume n: "rstrip s \<noteq> []"
  from rstrip_prefix [of s] obtain w where "s = rstrip s @ w" by blast
  then have "hd s = hd (rstrip s @ w)" by simp
  with n show ?thesis by simp
qed

lemma stripped_strip: "stripped (strip s)"
proof (cases "strip s = []")
  case True
  then show ?thesis by (simp add: stripped_def)
next
  case False
  then have r: "rstrip (lstrip s) \<noteq> []" by (simp add: strip_def)
  then have l: "lstrip s \<noteq> []" by (auto simp: rstrip_def)
  from rstrip_hd [OF r] lstrip_hd [OF l] have "\<not> is_space (hd (strip s))"
    by (simp add: strip_def)
  moreover from rstrip_last [OF r] have "\<not> is_space (last (strip s))"
    by (simp add: strip_def)
  ultimately show ?thesis by (simp add: stripped_def)
qed

lemma strip_id: "stripped s \<Longrightarrow> strip s = s"
  by (auto simp: stripped_def strip_def lstrip_id rstrip_id)

lemma set_strip: "set (strip s) \<subseteq> set s"
proof -
  have "set (rstrip t) \<subseteq> set t" for t
    using set_dropWhileD [of _ is_space "rev t"] by (auto simp: rstrip_def)
  moreover have "set (lstrip s) \<subseteq> set s"
    by (auto simp: lstrip_def dest: set_dropWhileD)
  ultimately show ?thesis unfolding strip_def by blast
qed

lemma clean_strip: "clean s \<Longrightarrow> clean (strip s)"
  using set_strip [of s] by (auto simp: clean_def)

lemma strip_core:
  assumes "\<forall>c\<in>set a. is_space c" "\<forall>c\<in>set b. is_space c" "stripped core" "core \<noteq> []"
  shows "strip (a @ core @ b) = core"
proof -
  from assms(3,4) have h: "\<not> is_space (hd core)" and l: "\<not> is_space (last core)"
    by (simp_all add: stripped_def)
  have "lstrip (a @ core @ b) = lstrip (core @ b)"
    using assms(1) by (simp add: lstrip_def dropWhile_all)
  also have "\<dots> = core @ b"
    using h assms(4) by (intro lstrip_id) simp
  finally have 1: "lstrip (a @ core @ b) = core @ b" .
  have "rstrip (core @ b) = rev (dropWhile is_space (rev b @ rev core))"
    by (simp add: rstrip_def)
  also have "\<dots> = rev (dropWhile is_space (rev core))"
    using assms(2) by (simp add: dropWhile_all)
  also have "\<dots> = rstrip core" by (simp add: rstrip_def)
  also have "\<dots> = core" using l by (intro rstrip_id) simp
  finally show ?thesis using 1 by (simp add: strip_def)
qed

lemma strip_spaces: "\<forall>c\<in>set a. is_space c \<Longrightarrow> strip a = []"
proof -
  assume "\<forall>c\<in>set a. is_space c"
  then have "lstrip a = []" unfolding lstrip_def by (induction a) auto
  then have "strip a = rstrip []" by (simp only: strip_def)
  then show ?thesis by (simp add: rstrip_def)
qed

lemma strip_hd: "s \<noteq> [] \<Longrightarrow> \<not> is_space (hd s) \<Longrightarrow> strip s \<noteq> [] \<Longrightarrow> hd (strip s) = hd s"
  using rstrip_hd [of "lstrip s"] by (simp add: strip_def lstrip_id)

lemma strip_last:
  assumes "s \<noteq> []" "\<not> is_space (last s)"
  shows "strip s \<noteq> [] \<and> last (strip s) = last s"
proof -
  have "\<exists>p. s = p @ lstrip s"
    unfolding lstrip_def by (metis takeWhile_dropWhile_id)
  then obtain p where p: "s = p @ lstrip s" ..
  have n: "lstrip s \<noteq> []"
  proof
    assume "lstrip s = []"
    then have "\<forall>c\<in>set s. is_space c" by (simp add: lstrip_def)
    with assms show False by simp
  qed
  with p have "last s = last (lstrip s)" by (metis last_appendR)
  with assms(2) n have "rstrip (lstrip s) = lstrip s" by (intro rstrip_id) simp
  with n \<open>last s = last (lstrip s)\<close> show ?thesis by (simp add: strip_def)
qed

lemma startswith_char: "startswith s [c] \<longleftrightarrow> s \<noteq> [] \<and> hd s = c"
  by (cases s) (auto simp: startswith_def)

lemma endswith_char: "endswith s [c] \<longleftrightarrow> s \<noteq> [] \<and> last s = c"
proof (cases s rule: rev_cases)
  case Nil
  then show ?thesis by (simp add: endswith_def)
next
  case (snoc xs x)
  then show ?thesis by (auto simp: endswith_def)
qed


lemma set_str_nat: "set (str_nat n) \<subseteq> set ''0123456789''"
proof (induction n rule: str_nat.induct)
  case (1 n)
  have d: "digit_char k \<in> set ''0123456789''" if "k < 10" for k
    unfolding digit_char_def using that by (intro nth_mem) simp
  show ?case
  proof (cases "n < 10")
    case True
    with d [of n] show ?thesis by (subst str_nat.simps) simp
  next
    case False
    with 1 d [of "n mod 10"] show ?thesis by (subst str_nat.simps) auto
  qed
qed

text \<open>
  The names, keys and values of a dictionary that was read: a name is not one of the two
  names that open no section; a key has no \<open>=\<close> and does not begin a comment; and a key
  that begins with \<open>[\<close> does not come with a value that ends with \<open>]\<close>.
\<close>

definition name_ok :: "string \<Rightarrow> bool" where
  "name_ok name = (stripped name \<and> clean name \<and> \<not> reserved name)"

definition item_ok :: "string \<times> string \<Rightarrow> bool" where
  "item_ok item =
     (stripped (fst item) \<and> stripped (snd item) \<and> clean (fst item) \<and> clean (snd item)
      \<and> CHR ''='' \<notin> set (fst item)
      \<and> \<not> startswith (fst item) ''#'' \<and> \<not> startswith (fst item) '';''
      \<and> \<not> (startswith (fst item) ''['' \<and> endswith (snd item) '']''))"

definition section_ok :: "config_section \<Rightarrow> bool" where
  "section_ok sec = (distinct (keys sec) \<and> list_all item_ok sec)"

definition store_ok :: "config_store \<Rightarrow> bool" where
  "store_ok d = (distinct (keys d) \<and> list_all (\<lambda>s. name_ok (fst s) \<and> section_ok (snd s)) d)"

lemma name_ok_renamed:
  assumes "stripped a" "clean a"
  shows "name_ok (renamed a k)"
proof -
  obtain ds where ds: "str_nat k = ds" "ds \<noteq> []" "set ds \<subseteq> set ''0123456789''"
    using str_nat_not_Nil(1) set_str_nat by blast
  have l: "last (renamed a k) = last ds"
    using ds by (simp add: renamed_def)
  have "last ds \<in> set ''0123456789''" using ds by (meson last_in_set subsetD)
  then have sl: "\<not> is_space (last ds)" by (auto simp: is_space_def)
  have h: "\<not> is_space (hd (renamed a k))"
    using assms(1) by (cases a) (auto simp: renamed_def stripped_def is_space_def)
  have c: "clean (renamed a k)"
    using assms(2) ds by (auto simp: renamed_def clean_def)
  have u: "CHR ''_'' \<in> set (renamed a k)" by (simp add: renamed_def)
  then have "\<not> reserved (renamed a k)" by (auto simp: reserved_def)
  with h l sl c show ?thesis by (simp add: name_ok_def stripped_def)
qed

lemma set_dict_set: "set (dict_set k v d) \<subseteq> insert (k, v) (set d)"
  by (induction d) auto

lemma section_ok_set:
  "section_ok sec \<Longrightarrow> item_ok (k, v) \<Longrightarrow> section_ok (dict_set k v sec)"
  using set_dict_set [of k v sec]
  by (auto simp: section_ok_def keys_dict_set list_all_iff)

lemma item_ok_parsed:
  assumes L: "stripped L" "clean L" "\<not> startswith L ''#''" "\<not> startswith L '';''"
    "\<not> (startswith L ''['' \<and> endswith L '']'')" "CHR ''='' \<in> set L"
  shows "item_ok (strip (fst (split_eq L)), strip (snd (split_eq L)))"
proof -
  let ?K = "takeWhile (\<lambda>c. c \<noteq> CHR ''='') L" and ?V = "tl (dropWhile (\<lambda>c. c \<noteq> CHR ''='') L)"
  let ?k = "strip ?K" and ?v = "strip ?V"
  from L(6) have ne: "L \<noteq> []" by auto
  with L(1) have hL: "\<not> is_space (hd L)" and lL: "\<not> is_space (last L)"
    by (simp_all add: stripped_def)
  have dn: "dropWhile (\<lambda>c. c \<noteq> CHR ''='') L \<noteq> []"
    using L(6) by (simp add: dropWhile_eq_Nil_conv)
  then have dd: "dropWhile (\<lambda>c. c \<noteq> CHR ''='') L = CHR ''='' # ?V"
    using hd_dropWhile [OF dn] by (cases "dropWhile (\<lambda>c. c \<noteq> CHR ''='') L") auto
  have split: "L = ?K @ CHR ''='' # ?V"
    using takeWhile_dropWhile_id [of "\<lambda>c. c \<noteq> CHR ''=''" L] dd by simp
  have sK: "set ?K \<subseteq> set L" by (auto dest: set_takeWhileD)
  have sV: "set ?V \<subseteq> set L" using split by (metis Un_iff set_append set_subset_Cons subsetI subset_trans)
  have ck: "clean ?k" using set_strip [of ?K] sK L(2) by (auto simp: clean_def)
  have cv: "clean ?v" using set_strip [of ?V] sV L(2) by (auto simp: clean_def)
  have eq: "CHR ''='' \<notin> set ?k"
    using set_strip [of ?K] by (auto dest: set_takeWhileD)
  have hk: "hd ?k = hd L" if "?k \<noteq> []"
  proof -
    from that have kn: "?K \<noteq> []" by (auto simp: strip_def lstrip_def rstrip_def)
    then have "hd ?K = hd L" using split by (metis hd_append2)
    with strip_hd [OF kn _ that] hL show ?thesis by simp
  qed
  have lv: "last ?v = last L" if "?v \<noteq> []"
  proof -
    from that have vn: "?V \<noteq> []" by (auto simp: strip_def lstrip_def rstrip_def)
    then have "last ?V = last L" using split by (metis last_appendR last_ConsR list.distinct(1))
    with strip_last [OF vn] lL show ?thesis by simp
  qed
  from hk L(3,4) ne have c1: "\<not> startswith ?k ''#''" "\<not> startswith ?k '';''"
    by (auto simp: startswith_char)
  from hk lv L(5) ne have c2: "\<not> (startswith ?k ''['' \<and> endswith ?v '']'')"
    by (auto simp: startswith_char endswith_char)
  from ck cv eq c1 c2 show ?thesis
    by (simp add: item_ok_def split_eq_def stripped_strip)
qed

lemma body_step_ok:
  assumes "section_ok sec" "clean (strip raw)" "\<not> is_header raw"
  shows "section_ok (body_step raw sec)"
proof (cases "\<not> skip_line raw \<and> CHR ''='' \<in> set (strip raw)")
  case False
  with assms(1) show ?thesis by (auto simp: body_step_def)
next
  case True
  with assms(3) have "item_ok (strip (fst (split_eq (strip raw))), strip (snd (split_eq (strip raw))))"
    by (intro item_ok_parsed stripped_strip assms(2)) (auto simp: skip_line_def is_header_def)
  with assms(1) True show ?thesis
    by (simp add: body_step_def section_ok_set)
qed


lemma store_ok_snoc:
  "store_ok d \<Longrightarrow> n \<notin> set (keys d) \<Longrightarrow> name_ok n \<Longrightarrow> section_ok sec \<Longrightarrow> store_ok (d @ [(n, sec)])"
  by (simp add: store_ok_def)

lemma store_ok_snocD:
  "store_ok (d @ [(n, sec)]) \<Longrightarrow> store_ok d \<and> n \<notin> set (keys d) \<and> name_ok n \<and> section_ok sec"
  by (simp add: store_ok_def)

lemma clean_header_name: "clean (strip raw) \<Longrightarrow> clean (header_name raw)"
proof -
  assume c: "clean (strip raw)"
  have "set (slice_1_m1 (strip raw)) \<subseteq> set (strip raw)"
    unfolding slice_1_m1_def
    by (metis in_set_butlastD list.set_sel(2) subsetI tl_Nil)
  with c have "clean (slice_1_m1 (strip raw))" by (auto simp: clean_def)
  then show ?thesis unfolding header_name_def by (rule clean_strip)
qed

lemma name_ok_unique_name:
  assumes "clean (strip raw)" "\<not> reserved (header_name raw)"
  shows "name_ok (unique_name (header_name raw) (header_name raw) 1 d)"
proof -
  let ?A = "header_name raw"
  have s: "stripped ?A" unfolding header_name_def by (rule stripped_strip)
  have c: "clean ?A" using assms(1) by (rule clean_header_name)
  show ?thesis
  proof (cases "dict_has ?A d")
    case True
    from unique_name_renamed [OF this, of 1 ?A] obtain k
      where "unique_name ?A ?A 1 d = renamed ?A k" by blast
    with name_ok_renamed [OF s c, of k] show ?thesis by simp
  next
    case False
    then have "unique_name ?A ?A 1 d = ?A" by (simp add: unique_name.simps)
    with s c assms(2) show ?thesis by (simp add: name_ok_def)
  qed
qed

lemma store_ok_step:
  assumes "state_ok st" "store_ok (dsn_dict st)" "clean (strip raw)"
    and "process_line raw st = Inr st1"
  shows "store_ok (dsn_dict st1)"
proof (cases "is_header raw")
  case h: True
  show ?thesis
  proof (cases "reserved (header_name raw)")
    case True
    with h assms show ?thesis by (auto simp: process_line_reserved)
  next
    case False
    let ?n = "unique_name (header_name raw) (header_name raw) 1 (dsn_dict st)"
    have "?n \<notin> set (keys (dsn_dict st))"
      using unique_name_fresh [of "header_name raw" "header_name raw" 1 "dsn_dict st"]
      by (simp add: dict_has_def)
    moreover have "name_ok ?n" using assms(3) False by (rule name_ok_unique_name)
    moreover have "section_ok []" by (simp add: section_ok_def)
    ultimately have "store_ok (dsn_dict st @ [(?n, [])])"
      using assms(2) by (intro store_ok_snoc)
    with h False assms(4) show ?thesis by (auto simp: process_line_header)
  qed
next
  case h: False
  show ?thesis
  proof (cases "current_section st")
    case None
    with h assms show ?thesis by (auto simp: process_line_orphan)
  next
    case (Some c)
    note e = state_ok_last [OF assms(1) Some]
    from assms(2) have "store_ok (butlast (dsn_dict st) @ [(c, snd (last (dsn_dict st)))])"
      using e(1) by simp
    from store_ok_snocD [OF this] body_step_ok [OF _ assms(3) h]
    have "store_ok (butlast (dsn_dict st) @ [(c, body_step raw (snd (last (dsn_dict st))))])"
      by (intro store_ok_snoc) simp_all
    with h assms(1,4) Some show ?thesis by (auto simp: process_line_body)
  qed
qed

lemma store_ok_lines:
  assumes "state_ok st" "store_ok (dsn_dict st)" "\<forall>l\<in>set ls. clean (strip l)"
    and "process_lines ls st = (None, st')"
  shows "store_ok (dsn_dict st')"
  using assms
proof (induction ls arbitrary: st)
  case Nil
  then show ?case by simp
next
  case (Cons l ls)
  from state_ok_step [OF Cons.prems(1), of l] obtain st1
    where s: "process_line l st = Inr st1" and ok: "state_ok st1" by blast
  from store_ok_step [OF Cons.prems(1,2) _ s] Cons.prems(3) have "store_ok (dsn_dict st1)" by simp
  from Cons.IH [OF ok this] Cons.prems(3,4) s show ?case by simp
qed

lemma universal_newlines_no_cr: "CHR 0x0D \<notin> set (universal_newlines s)"
  by (induction s rule: universal_newlines.induct) auto

lemma universal_newlines_id: "CHR 0x0D \<notin> set s \<Longrightarrow> universal_newlines s = s"
  by (induction s rule: universal_newlines.induct) auto

lemma strip_snoc_space: "is_space c \<Longrightarrow> strip (s @ [c]) = strip s"
proof -
  assume c: "is_space c"
  show ?thesis
  proof (cases "\<forall>x\<in>set s. is_space x")
    case True
    with c have "\<forall>x\<in>set (s @ [c]). is_space x" by simp
    then have "strip (s @ [c]) = []" by (rule strip_spaces)
    moreover from True have "strip s = []" by (rule strip_spaces)
    ultimately show ?thesis by simp
  next
    case False
    then obtain x where "x \<in> set s" "\<not> is_space x" by blast
    then have "lstrip (s @ [c]) = lstrip s @ [c]"
      unfolding lstrip_def by (rule dropWhile_append1)
    then show ?thesis using c by (simp add: strip_def rstrip_def)
  qed
qed

lemma file_lines_from_clean:
  assumes "CHR 0x0D \<notin> set s" "clean cur" "l \<in> set (file_lines_from cur s)"
  shows "clean (strip l)"
  using assms
proof (induction s arbitrary: cur)
  case Nil
  then show ?case by (auto simp: clean_strip split: if_splits)
next
  case (Cons c s)
  show ?case
  proof (cases "c = CHR 0x0A")
    case True
    with Cons.prems(3) consider "l = cur @ [c]" | "l \<in> set (file_lines_from [] s)" by auto
    then show ?thesis
    proof cases
      case 1
      have "is_space c" using True by (simp add: is_space_def)
      with 1 Cons.prems(2) show ?thesis by (simp add: strip_snoc_space clean_strip)
    next
      case 2
      with Cons.IH [of "[]"] Cons.prems(1) show ?thesis by (simp add: clean_def)
    qed
  next
    case False
    with Cons.prems have "clean (cur @ [c])" "l \<in> set (file_lines_from (cur @ [c]) s)"
      by (auto simp: clean_def)
    with Cons.IH [of "cur @ [c]"] Cons.prems(1) show ?thesis by simp
  qed
qed

lemma file_lines_clean: "l \<in> set (file_lines body) \<Longrightarrow> clean (strip l)"
  unfolding file_lines_def
  by (rule file_lines_from_clean [OF universal_newlines_no_cr, of "[]"]) (simp_all add: clean_def)

lemma store_ok_found: "store_ok (fst (read_ini_file_found fs p))"
proof (cases "fs p")
  case Absent
  then show ?thesis
    by (simp add: read_ini_file_found_def read_ini_file_try_def initial_state_def store_ok_def)
next
  case (Unreachable msg)
  then show ?thesis
    by (simp add: read_ini_file_found_def read_ini_file_try_def initial_state_def store_ok_def)
next
  case (Unreadable msg)
  then show ?thesis
    by (simp add: read_ini_file_found_def read_ini_file_try_def initial_state_def store_ok_def)
next
  case (Content body)
  from process_lines_ok [OF state_ok_initial, of "file_lines body"] obtain st
    where p: "process_lines (file_lines body) initial_state = (None, st)" by blast
  have "store_ok (dsn_dict initial_state)" by (simp add: initial_state_def store_ok_def)
  from store_ok_lines [OF state_ok_initial this _ p] have "store_ok (dsn_dict st)"
    by (simp add: file_lines_clean)
  with Content p show ?thesis
    by (simp add: read_ini_file_found_def read_ini_file_try_def)
qed

lemma store_ok_read:
  assumes "read_ini_file fs filepath = Inr (store, warnings)"
  shows "store_ok store"
proof -
  have e: "store_ok []" by (simp add: store_ok_def)
  from assms have "store = [] \<or> store = fst (read_ini_file_found fs (the filepath))"
    by (auto simp: read_ini_file_def split: option.splits if_splits sum.splits)
  with e store_ok_found [of fs "the filepath"] show ?thesis by auto
qed

text \<open>The lines of the text of a section.\<close>

definition section_raw :: "string \<times> config_section \<Rightarrow> string list" where
  "section_raw s = (''['' @ fst s @ '']'' @ [CHR 0x0A]) # map serialize_item (snd s) @ [[CHR 0x0A]]"

definition terminated :: "string \<Rightarrow> bool" where
  "terminated raw = (\<exists>l. raw = l @ [CHR 0x0A] \<and> clean l)"

lemma serialize_raw: "serialize store = concat (concat (map section_raw store))"
  by (induction store) (simp_all add: serialize_def serialize_section_def section_raw_def)

lemma file_lines_from_line:
  "CHR 0x0A \<notin> set l \<Longrightarrow>
   file_lines_from cur (l @ CHR 0x0A # rest) = (cur @ l @ [CHR 0x0A]) # file_lines_from [] rest"
  by (induction l arbitrary: cur) auto

lemma file_lines_from_concat:
  "\<forall>r\<in>set rs. terminated r \<Longrightarrow> file_lines_from [] (concat rs) = rs"
proof (induction rs)
  case Nil
  then show ?case by simp
next
  case (Cons r rs)
  then have t: "terminated r" by simp
  then obtain l where r: "r = l @ [CHR 0x0A]" and l: "CHR 0x0A \<notin> set l"
    by (auto simp: terminated_def clean_def)
  have "file_lines_from [] (concat (r # rs)) = file_lines_from [] (l @ CHR 0x0A # concat rs)"
    by (simp add: r)
  also have "\<dots> = ([] @ l @ [CHR 0x0A]) # file_lines_from [] (concat rs)"
    using l by (rule file_lines_from_line)
  also have "\<dots> = r # rs" using r Cons by simp
  finally show ?case .
qed

lemma file_lines_concat:
  assumes "\<forall>r\<in>set rs. terminated r"
  shows "file_lines (concat rs) = rs"
proof -
  have "CHR 0x0D \<notin> set (concat rs)"
  proof
    assume "CHR 0x0D \<in> set (concat rs)"
    then obtain r where r: "r \<in> set rs" "CHR 0x0D \<in> set r" by auto
    with assms have "terminated r" by simp
    then obtain l where "r = l @ [CHR 0x0A]" "CHR 0x0D \<notin> set l"
      by (auto simp: terminated_def clean_def)
    with r(2) show False by simp
  qed
  then show ?thesis
    using assms by (simp add: file_lines_def universal_newlines_id file_lines_from_concat)
qed

lemma terminated_snoc: "clean l \<Longrightarrow> terminated (l @ [CHR 0x0A])"
  by (auto simp: terminated_def)

lemma section_raw_terminated:
  assumes "name_ok (fst s)" "section_ok (snd s)"
  shows "\<forall>r\<in>set (section_raw s). terminated r"
proof -
  have "clean (''['' @ fst s @ '']'')"
    using assms(1) by (simp add: name_ok_def clean_def)
  then have h: "terminated (''['' @ fst s @ '']'' @ [CHR 0x0A])"
    using terminated_snoc [of "''['' @ fst s @ '']''"] by simp
  have i: "terminated (serialize_item item)" if "item \<in> set (snd s)" for item
  proof -
    from that assms(2) have "item_ok item" by (simp add: section_ok_def list_all_iff)
    then have "clean (fst item @ '' = '' @ snd item)"
      by (simp add: item_ok_def clean_def)
    then show ?thesis
      using terminated_snoc [of "fst item @ '' = '' @ snd item"]
      by (simp add: serialize_item_def)
  qed
  have b: "terminated [CHR 0x0A]" using terminated_snoc [of "[]"] by (simp add: clean_def)
  from h i b show ?thesis by (auto simp: section_raw_def)
qed

lemma store_raw_terminated:
  "store_ok d \<Longrightarrow> \<forall>r\<in>set (concat (map section_raw d)). terminated r"
  using section_raw_terminated by (auto simp: store_ok_def list_all_iff)

lemma space_chars: "is_space (CHR '' '')" "is_space (CHR 0x0A)"
  "\<not> is_space (CHR ''='')" "\<not> is_space (CHR ''['')" "\<not> is_space (CHR '']'')"
  by (simp_all add: is_space_def)

lemma serialize_item_strip:
  assumes "item_ok item"
  shows "strip (serialize_item item) =
     (if fst item = [] then [] else fst item @ '' '') @ ''=''
       @ (if snd item = [] then [] else '' '' @ snd item)"
proof -
  let ?k = "fst item" and ?v = "snd item"
  let ?core = "(if ?k = [] then [] else ?k @ '' '') @ ''='' @ (if ?v = [] then [] else '' '' @ ?v)"
  let ?a = "if ?k = [] then '' '' else []"
  let ?b = "(if ?v = [] then '' '' else []) @ [CHR 0x0A]"
  from assms have sk: "stripped ?k" and sv: "stripped ?v" by (simp_all add: item_ok_def)
  have e: "serialize_item item = ?a @ ?core @ ?b"
    by (simp add: serialize_item_def)
  have a: "\<forall>c\<in>set ?a. is_space c" and b: "\<forall>c\<in>set ?b. is_space c"
    by (simp_all add: space_chars)
  have c: "stripped ?core" "?core \<noteq> []"
    using sk sv by (auto simp: stripped_def space_chars)
  show ?thesis
    unfolding e by (rule strip_core [OF a b c])
qed

lemma split_eq_append: "CHR ''='' \<notin> set a \<Longrightarrow> split_eq (a @ CHR ''='' # b) = (a, b)"
  by (induction a) (auto simp: split_eq_def)

lemma reparse_item:
  assumes "item_ok item"
  shows "\<not> is_header (serialize_item item)"
    and "body_step (serialize_item item) sec = dict_set (fst item) (snd item) sec"
proof -
  let ?k = "fst item" and ?v = "snd item"
  let ?kk = "if ?k = [] then [] else ?k @ '' ''"
  let ?vv = "if ?v = [] then [] else '' '' @ ?v"
  note L = serialize_item_strip [OF assms]
  from assms have sk: "stripped ?k" and sv: "stripped ?v" and eq: "CHR ''='' \<notin> set ?k"
    and c1: "\<not> startswith ?k ''#''" "\<not> startswith ?k '';''"
    and c2: "\<not> (startswith ?k ''['' \<and> endswith ?v '']'')"
    by (simp_all add: item_ok_def)
  have ns: "\<not> skip_line (serialize_item item)"
    using c1 by (auto simp: skip_line_def L startswith_char)
  show "\<not> is_header (serialize_item item)"
    using c2 by (auto simp: is_header_def L startswith_char endswith_char)
  have "CHR ''='' \<notin> set ?kk" using eq by simp
  then have "split_eq (?kk @ CHR ''='' # ?vv) = (?kk, ?vv)" by (rule split_eq_append)
  then have sp: "split_eq (?kk @ ''='' @ ?vv) = (?kk, ?vv)" by simp
  have k: "strip ?kk = ?k"
  proof (cases "?k = []")
    case True
    then show ?thesis by (simp add: strip_def lstrip_def rstrip_def)
  next
    case False
    with strip_core [of "[]" "'' ''" ?k] sk show ?thesis by (simp add: space_chars)
  qed
  have v: "strip ?vv = ?v"
  proof (cases "?v = []")
    case True
    then show ?thesis by (simp add: strip_def lstrip_def rstrip_def)
  next
    case False
    with strip_core [of "'' ''" "[]" ?v] sv show ?thesis by (simp add: space_chars)
  qed
  have in_L: "CHR ''='' \<in> set (strip (serialize_item item))"
    unfolding L by simp
  have fk: "strip (fst (split_eq (strip (serialize_item item)))) = ?k"
    by (simp only: L sp fst_conv k)
  have fv: "strip (snd (split_eq (strip (serialize_item item)))) = ?v"
    by (simp only: L sp snd_conv v)
  from ns in_L show "body_step (serialize_item item) sec = dict_set (fst item) (snd item) sec"
    by (simp only: body_step_def fk fv simp_thms if_True)
qed

lemma reparse_header:
  assumes "name_ok name"
  shows "is_header (''['' @ name @ '']'' @ [CHR 0x0A])"
    and "header_name (''['' @ name @ '']'' @ [CHR 0x0A]) = name"
proof -
  let ?core = "''['' @ name @ '']''"
  have c: "stripped ?core" "?core \<noteq> []"
    by (simp_all add: stripped_def space_chars)
  have "strip ([] @ ?core @ [CHR 0x0A]) = ?core"
    by (rule strip_core [OF _ _ c]) (simp_all add: space_chars)
  then have L: "strip (''['' @ name @ '']'' @ [CHR 0x0A]) = ?core" by simp
  show "is_header (''['' @ name @ '']'' @ [CHR 0x0A])"
    unfolding is_header_def skip_line_def L
    by (simp add: startswith_char endswith_char)
  have "slice_1_m1 ?core = name" by (simp add: slice_1_m1_def butlast_append)
  moreover from assms have "strip name = name" by (simp add: name_ok_def strip_id)
  ultimately show "header_name (''['' @ name @ '']'' @ [CHR 0x0A]) = name"
    unfolding header_name_def L by simp
qed

lemma body_step_blank: "body_step [CHR 0x0A] acc = acc"
proof -
  have "strip [CHR 0x0A] = []" by (rule strip_spaces) (simp add: space_chars)
  then show ?thesis by (simp add: body_step_def skip_line_def)
qed

lemma not_header_blank: "\<not> is_header [CHR 0x0A]"
proof -
  have "strip [CHR 0x0A] = []" by (rule strip_spaces) (simp add: space_chars)
  then show ?thesis by (simp add: is_header_def skip_line_def)
qed

lemma body_section_items:
  assumes "list_all item_ok sec" "distinct (keys sec)" "set (keys acc) \<inter> set (keys sec) = {}"
  shows "body_section (map serialize_item sec @ [[CHR 0x0A]]) acc = acc @ sec"
  using assms
proof (induction sec arbitrary: acc)
  case Nil
  then show ?case by (simp add: body_step_blank)
next
  case (Cons item sec)
  from Cons.prems(1) have ok: "item_ok item" by simp
  from Cons.prems(3) have "fst item \<notin> set (keys acc)" by auto
  then have s: "body_step (serialize_item item) acc = acc @ [item]"
    by (simp add: reparse_item(2) [OF ok] dict_set_fresh)
  have "body_section (map serialize_item sec @ [[CHR 0x0A]]) (acc @ [item]) = (acc @ [item]) @ sec"
    using Cons.prems by (intro Cons.IH) auto
  with s show ?case by simp
qed

lemma reparse_section:
  assumes "state_ok st" "name \<notin> set (keys (dsn_dict st))" "name_ok name" "section_ok sec"
  shows "process_lines (section_raw (name, sec)) st =
     (None, st\<lparr>dsn_dict := dsn_dict st @ [(name, sec)], current_section := Some name\<rparr>)"
proof -
  let ?h = "''['' @ name @ '']'' @ [CHR 0x0A]"
  let ?body = "map serialize_item sec @ [[CHR 0x0A]]"
  let ?st1 = "st\<lparr>dsn_dict := dsn_dict st @ [(name, [])], current_section := Some name\<rparr>"
  note h = reparse_header [OF assms(3)]
  from assms(3) have "\<not> reserved name" by (simp add: name_ok_def)
  then have nr: "\<not> reserved (header_name ?h)" unfolding h(2) .
  from assms(2) have u: "unique_name name name 1 (dsn_dict st) = name"
    by (simp add: unique_name.simps dict_has_def)
  have "process_line ?h st = Inr (st\<lparr>dsn_dict := dsn_dict st @ [(name, [])],
      current_section := Some name, printed := printed st @ []\<rparr>)"
    using process_line_header [OF h(1) nr, of st] by (simp only: h(2) u if_False simp_thms)
  then have s1: "process_line ?h st = Inr ?st1" by simp
  have ok1: "state_ok ?st1"
    using state_ok_step [OF assms(1), of ?h] s1 by simp
  have nh: "\<forall>l\<in>set ?body. \<not> is_header l"
    using assms(4) reparse_item(1) not_header_blank
    by (auto simp: section_ok_def list_all_iff)
  have b: "body_section ?body [] = sec"
    using body_section_items [of sec "[]"] assms(4) by (simp add: section_ok_def)
  have "process_lines ?body ?st1 = (None, ?st1\<lparr>dsn_dict := dsn_dict st @ [(name, sec)]\<rparr>)"
    using process_lines_body [OF nh ok1, of name] b by simp
  with s1 have "process_lines (?h # ?body) st
      = (None, ?st1\<lparr>dsn_dict := dsn_dict st @ [(name, sec)]\<rparr>)"
    by (simp only: process_lines.simps sum.case)
  then show ?thesis
    by (simp add: section_raw_def)
qed

lemma reparse_store:
  assumes "store_ok d" "state_ok st" "set (keys (dsn_dict st)) \<inter> set (keys d) = {}"
  shows "\<exists>st'. process_lines (concat (map section_raw d)) st = (None, st') \<and>
           dsn_dict st' = dsn_dict st @ d \<and> printed st' = printed st"
  using assms
proof (induction d arbitrary: st)
  case Nil
  then show ?case by simp
next
  case (Cons s d)
  let ?st1 = "st\<lparr>dsn_dict := dsn_dict st @ [(fst s, snd s)], current_section := Some (fst s)\<rparr>"
  from Cons.prems(1) have ok: "name_ok (fst s)" "section_ok (snd s)" "store_ok d"
    "fst s \<notin> set (keys d)"
    by (simp_all add: store_ok_def)
  from Cons.prems(3) have fresh: "fst s \<notin> set (keys (dsn_dict st))" by auto
  have p1: "process_lines (section_raw s) st = (None, ?st1)"
    using reparse_section [OF Cons.prems(2) fresh ok(1,2)] by simp
  have ok1: "state_ok ?st1"
    using process_lines_ok [OF Cons.prems(2), of "section_raw s"] p1 by simp
  have "set (keys (dsn_dict ?st1)) \<inter> set (keys d) = {}"
    using Cons.prems(3) ok(4) by auto
  from Cons.IH [OF ok(3) ok1 this] obtain st' where
    "process_lines (concat (map section_raw d)) ?st1 = (None, st')"
    "dsn_dict st' = dsn_dict ?st1 @ d" "printed st' = printed ?st1" by blast
  with process_lines_append [OF p1, of "concat (map section_raw d)"] show ?case
    by simp
qed

text \<open>
  C3: take the dictionary that \<open>read_ini_file\<close> returns for any path, write its text to a
  file and read that file: the result is the same dictionary, with the same names in the
  same order, the same keys in each section and the same values, and no warning is
  printed.
\<close>

theorem parse_serialize_roundtrip:
  assumes "read_ini_file fs p = Inr (store, warnings)" and "q \<noteq> []"
  shows "read_ini_file (fs(q := Content (serialize store))) (Some q) = Inr (store, [])"
proof -
  have ok: "store_ok store" using assms(1) by (rule store_ok_read)
  have "file_lines (serialize store) = concat (map section_raw store)"
    unfolding serialize_raw by (rule file_lines_concat) (rule store_raw_terminated [OF ok])
  moreover from reparse_store [OF ok state_ok_initial] obtain st' where
    "process_lines (concat (map section_raw store)) initial_state = (None, st')"
    "dsn_dict st' = store" "printed st' = []"
    by (auto simp: initial_state_def)
  ultimately show ?thesis
    using assms(2)
    by (simp add: read_ini_file_def read_ini_file_found_def read_ini_file_try_def path_exists_def)
qed

theorem parse_serialize_roundtrip_witness:
  "read_ini_file example_fs (Some ''thrice.ini'')
     = Inr ([(''A'', [(''x'', ''1'')]), (''A__1'', [(''y'', ''2'')]), (''A__2'', [(''z'', ''3'')])],
            [''Warning: Duplicate section '' @ [CHR 0x27] @ ''A'' @ [CHR 0x27]
               @ '' renamed to '' @ [CHR 0x27] @ ''A__2'' @ [CHR 0x27]])
   \<and> serialize [(''A'', [(''x'', ''1'')]), (''A__1'', [(''y'', ''2'')]), (''A__2'', [(''z'', ''3'')])]
     = ''[A]\<newline>x = 1\<newline>\<newline>[A__1]\<newline>y = 2\<newline>\<newline>[A__2]\<newline>z = 3\<newline>\<newline>''
   \<and> read_ini_file (example_fs(''copy.ini'' := Content (serialize
          [(''A'', [(''x'', ''1'')]), (''A__1'', [(''y'', ''2'')]), (''A__2'', [(''z'', ''3'')])])))
        (Some ''copy.ini'')
     = Inr ([(''A'', [(''x'', ''1'')]), (''A__1'', [(''y'', ''2'')]), (''A__2'', [(''z'', ''3'')])], [])"
proof -
  let ?store = "[(''A'', [(''x'', ''1'')]), (''A__1'', [(''y'', ''2'')]), (''A__2'', [(''z'', ''3'')])]"
  have a: "read_ini_file example_fs (Some ''thrice.ini'')
     = Inr (?store, [''Warning: Duplicate section '' @ [CHR 0x27] @ ''A'' @ [CHR 0x27]
               @ '' renamed to '' @ [CHR 0x27] @ ''A__2'' @ [CHR 0x27]])"
    by code_simp
  have b: "serialize ?store
     = ''[A]\<newline>x = 1\<newline>\<newline>[A__1]\<newline>y = 2\<newline>\<newline>[A__2]\<newline>z = 3\<newline>\<newline>''"
    by code_simp
  have c: "''copy.ini'' \<noteq> []" by simp
  from parse_serialize_roundtrip [OF a c] a b show ?thesis
    by blast
qed

end
